theory Spec2Isabelle
  imports Main "HOL-Library.Word"
begin

text \<open>
  The hooks of \<open>web3-hooks-react\<close> for an ERC20 contract, and the properties their
  specification claims. \<open>helpers.ts\<close> normalises a failure value into an \<open>Error\<close>;
  \<open>useERC20.ts\<close> returns the contract's functions (\<open>useERC20\<close>) and wraps the
  three state-changing ones so that the outcome of a call lands in a React state cell
  (\<open>useApprove\<close>, \<open>useTransfer\<close>, \<open>useTransferFrom\<close>). The definitions come
  first: JavaScript values, the error normaliser, promises with their job queue, the hooks,
  traces of events. The lemmas and the theorems for the claims C1 to C10 follow.
\<close>

section \<open>JavaScript values\<close>

text \<open>
  The hooks are TypeScript; what they handle at run time are JavaScript values. A rejection
  reason and the argument of \<open>asError\<close> are typed \<open>any\<close>, so the model needs a
  value type. It covers \<open>undefined\<close>, \<open>null\<close>, booleans, numbers, strings, symbols,
  and four kinds of objects: instances of \<open>Error\<close> (created by \<open>new Error\<close> or thrown
  by the engine as a \<open>TypeError\<close>), object literals (with \<open>Object.prototype\<close> as
  prototype, possibly nested), objects without a prototype (\<open>Object.create(null)\<close>) and
  functions. Every object carries its identity, a number: two objects are the same object
  exactly when the identities agree. Objects are never mutated by the code under study, so
  an object's contents travel with its identity.

  A number is an integer from \<open>-(2 ^ 53)\<close> to \<open>2 ^ 53 - 1\<close>, the range in which
  every integer is a number of the language and prints as its decimal digits; it is kept
  as a word of 54 bits read as signed. An object literal or an object without a prototype
  holds its own properties, string keys with data values, each key listed once. A function
  is kept with its source text and with the completion of a call of it as a conversion
  method, that is without arguments: \<open>Inr v\<close> when it returns \<open>v\<close>, \<open>Inl t\<close> when it
  throws \<open>t\<close>. Properties with symbol keys (\<open>Symbol.toPrimitive\<close> among them), accessor
  properties, proxies and functions with effects on the hook are outside the value type.
\<close>

datatype error_ctor = Error | TypeError

datatype jsval =
    JUndefined
  | JNull
  | JBool bool
  | JNum "54 word"
  | JStr string
  | JSymbol string
  | JError nat error_ctor "string option"
  | JPlain nat "(string \<times> jsval) list"
  | JNullProto nat "(string \<times> jsval) list"
  | JFunction nat string "jsval + jsval"

text \<open>
  A JavaScript computation either returns a value or throws one, and it may create
  objects: it takes the next free object identity and returns the new one. \<open>Inl\<close> is a
  thrown value, \<open>Inr\<close> a returned one. \<open>js_bind f g\<close> is the sequencing of two
  computations: what \<open>g(f())\<close> does.
\<close>

type_synonym 'a js = "nat \<Rightarrow> (jsval + 'a) \<times> nat"

definition throw_TypeError :: "string \<Rightarrow> 'a js" where
  "throw_TypeError msg a = (Inl (JError a TypeError (Some msg)), Suc a)"

definition js_bind :: "'a js \<Rightarrow> ('a \<Rightarrow> 'b js) \<Rightarrow> 'b js" where
  "js_bind f g a =
     (case f a of (Inl thrown, a') \<Rightarrow> (Inl thrown, a') | (Inr v, a') \<Rightarrow> g v a')"

text \<open>\<open>e instanceof Error\<close>: the prototype chain of \<open>e\<close> holds \<open>Error.prototype\<close>.\<close>

fun instanceof_Error :: "jsval \<Rightarrow> bool" where
  "instanceof_Error (JError i c m) = True"
| "instanceof_Error v = False"

text \<open>The objects among the values; the other values are primitive.\<close>

fun is_object :: "jsval \<Rightarrow> bool" where
  "is_object (JError i c m) = True"
| "is_object (JPlain i ps) = True"
| "is_object (JNullProto i ps) = True"
| "is_object (JFunction i src out) = True"
| "is_object v = False"


text \<open>Decimal digits of an integer, as \<open>Number.prototype.toString\<close> prints them.\<close>

definition digit :: "nat \<Rightarrow> char" where
  "digit d = ''0123456789'' ! d"

fun show_nat :: "nat \<Rightarrow> string" where
  "show_nat n = (if n < 10 then [digit n] else show_nat (n div 10) @ [digit (n mod 10)])"

definition show_int :: "int \<Rightarrow> string" where
  "show_int i = (if i < 0 then CHR ''-'' # show_nat (nat (- i)) else show_nat (nat i))"

text \<open>\<open>Error.prototype.toString\<close>: the name, then the message when there is one.\<close>

definition Error_toString :: "error_ctor \<Rightarrow> string option \<Rightarrow> string" where
  "Error_toString c m =
     (let n = (case c of Error \<Rightarrow> ''Error'' | TypeError \<Rightarrow> ''TypeError'')
      in case m of None \<Rightarrow> n | Some s \<Rightarrow> (if s = [] then n else n @ '': '' @ s))"

text \<open>
  The conversion of an object to a primitive value, with the hint \<open>string\<close>, is the
  language's \<open>OrdinaryToPrimitive\<close>: the method \<open>toString\<close> is looked up and, when it
  is a function, called; a primitive result is the conversion, and a thrown value is
  thrown on. Otherwise the same is tried with \<open>valueOf\<close>, and when this gives no
  primitive either, a \<open>TypeError\<close> is thrown. \<open>call_method ps k inherited\<close> looks the
  method \<open>k\<close> up, first among the own properties \<open>ps\<close>, then in the prototype, where
  \<open>inherited\<close> is the completion of the inherited method on this object (\<open>None\<close> when
  there is no prototype); the result is the completion of the call, or \<open>None\<close> when the
  property is missing or not a function. The texts of the engine's \<open>TypeError\<close>s are V8's.
\<close>

definition call_method ::
  "(string \<times> jsval) list \<Rightarrow> string \<Rightarrow> (jsval + jsval) option \<Rightarrow> (jsval + jsval) option" where
  "call_method ps k inherited =
     (case map_of ps k of
        None \<Rightarrow> inherited
      | Some (JFunction i src out) \<Rightarrow> Some out
      | Some v \<Rightarrow> None)"

definition OrdinaryToPrimitive ::
  "(string \<times> jsval) list \<Rightarrow> (jsval + jsval) option \<Rightarrow> (jsval + jsval) option \<Rightarrow> jsval js" where
  "OrdinaryToPrimitive ps inhToString inhValueOf a =
     (let second =
            (case call_method ps ''valueOf'' inhValueOf of
               Some (Inl thrown) \<Rightarrow> (Inl thrown, a)
             | Some (Inr v) \<Rightarrow>
                 if is_object v
                 then throw_TypeError ''Cannot convert object to primitive value'' a
                 else (Inr v, a)
             | None \<Rightarrow> throw_TypeError ''Cannot convert object to primitive value'' a)
      in case call_method ps ''toString'' inhToString of
           Some (Inl thrown) \<Rightarrow> (Inl thrown, a)
         | Some (Inr v) \<Rightarrow> if is_object v then second else (Inr v, a)
         | None \<Rightarrow> second)"

text \<open>
  \<open>ToPrimitive\<close> with the hint \<open>string\<close>. A primitive value is left as it is. An object
  literal inherits \<open>Object.prototype.toString\<close>, which returns \<open>[object Object]\<close>, and
  \<open>Object.prototype.valueOf\<close>, which returns the object itself; an object without a
  prototype inherits nothing. An error object is converted by \<open>Error.prototype.toString\<close>
  and a function by \<open>Function.prototype.toString\<close>, which returns its source text.
\<close>

fun ToPrimitive :: "jsval \<Rightarrow> jsval js" where
  "ToPrimitive (JError i c m) a = (Inr (JStr (Error_toString c m)), a)"
| "ToPrimitive (JFunction i src out) a = (Inr (JStr src), a)"
| "ToPrimitive (JPlain i ps) a =
     OrdinaryToPrimitive ps (Some (Inr (JStr ''[object Object]''))) (Some (Inr (JPlain i ps))) a"
| "ToPrimitive (JNullProto i ps) a = OrdinaryToPrimitive ps None None a"
| "ToPrimitive v a = (Inr v, a)"

text \<open>
  The abstract operation \<open>ToString\<close> of the language: the value is converted to a
  primitive, and the primitive to a string. A symbol cannot be converted and throws a
  \<open>TypeError\<close>. (The last equation of \<open>ToString_primitive\<close> is never reached from
  \<open>ToString\<close>: what \<open>ToPrimitive\<close> returns is not an object.)
\<close>

fun ToString_primitive :: "jsval \<Rightarrow> string js" where
  "ToString_primitive JUndefined a = (Inr ''undefined'', a)"
| "ToString_primitive JNull a = (Inr ''null'', a)"
| "ToString_primitive (JBool b) a = (Inr (if b then ''true'' else ''false''), a)"
| "ToString_primitive (JNum n) a = (Inr (show_int (sint n)), a)"
| "ToString_primitive (JStr s) a = (Inr s, a)"
| "ToString_primitive (JSymbol d) a =
     throw_TypeError ''Cannot convert a Symbol value to a string'' a"
| "ToString_primitive v a = throw_TypeError ''Cannot convert object to primitive value'' a"

definition ToString :: "jsval \<Rightarrow> string js" where
  "ToString v = js_bind (ToPrimitive v) ToString_primitive"

text \<open>
  \<open>new Error(message)\<close>: the object is created first; then, unless \<open>message\<close> is
  \<open>undefined\<close>, the message is converted with \<open>ToString\<close> and stored as the
  object's own \<open>message\<close>.
\<close>

definition new_Error :: "jsval \<Rightarrow> jsval js" where
  "new_Error message a =
     (if message = JUndefined then (Inr (JError a Error None), Suc a)
      else (case ToString message (Suc a) of
              (Inl thrown, a') \<Rightarrow> (Inl thrown, a')
            | (Inr msg, a') \<Rightarrow> (Inr (JError a Error (Some msg)), a')))"

section \<open>helpers.ts\<close>

text \<open>
  \<^verbatim>\<open>export function asError(e: any | Error): Error {
	return e instanceof Error ? e : new Error(e)
}\<close>
\<close>

definition asError :: "jsval \<Rightarrow> jsval js" where
  "asError e a = (if instanceof_Error e then (Inr e, a) else new_Error e a)"

text \<open>
  The values \<open>ToString\<close> converts: those on which it returns. (Whether it returns does
  not depend on the next free object identity, see \<open>ToString_returns\<close> below.)
\<close>

definition convertible :: "jsval \<Rightarrow> bool" where
  "convertible v = (case fst (ToString v 0) of Inl thrown \<Rightarrow> False | Inr s \<Rightarrow> True)"

section \<open>Promises and the job queue\<close>

text \<open>
  The write hooks chain \<open>.then(setResult).catch(setErr)\<close> on the promise of a contract
  call. The model keeps the promises of one mounted component in a store, indexed by creation
  order, and follows the language's algorithm: a promise is pending, fulfilled with a
  value or rejected with a reason; \<open>then\<close> creates a derived promise and registers a
  reaction; settling a promise queues one job per registered reaction; a job runs the
  handler (or passes the settlement on when there is none) and settles the derived
  promise with the handler's completion.

  React keeps one state cell for every call of \<open>useState\<close> a component makes. Each of
  the three write hooks calls \<open>useContract\<close>, and with it \<open>useState\<close>, once: the
  model is of a component that uses each hook once, and a cell is named by its hook.
  Handlers are closures in the source; the only two that are ever registered,
  \<open>setResult\<close> and \<open>setErr\<close>, are named by a datatype, together with the hook whose
  \<open>setTxn\<close> they close over.
\<close>

type_synonym BigNumberish = int

record TransactionResult =
  transaction :: "jsval option"
  error :: "jsval option"

datatype pstate = Pending | Fulfilled jsval | Rejected jsval

datatype hook = UseApprove | UseTransfer | UseTransferFrom

datatype handler = SetResult hook | SetErr hook

record reaction =
  onFulfilled :: "handler option"
  onRejected :: "handler option"
  derived :: nat

record promise =
  status :: pstate
  reactions :: "reaction list"

datatype job = ReactionJob reaction pstate

text \<open>The calls of the bound contract's methods, with their arguments.\<close>

datatype contract_call =
    Name
  | Symbol
  | Decimals
  | TotalSupply
  | BalanceOf string
  | Allowance string string
  | Approve string BigNumberish
  | Transfer string BigNumberish
  | TransferFrom string string BigNumberish

record issued_call =
  target :: string
  invoked :: contract_call
  returned :: nat

text \<open>
  The state of a mounted component: for each hook the React state cell \<open>txn\<close> of its
  \<open>useContract\<close> (\<open>None\<close> is \<open>undefined\<close>, its initial value), the promise store,
  the queue of reaction jobs, the log of the contract calls issued so far and the next
  free object identity.
\<close>

record world =
  txn :: "hook \<Rightarrow> TransactionResult option"
  promises :: "promise list"
  jobs :: "job list"
  calls :: "issued_call list"
  next_obj :: nat

definition init_world :: world where
  "init_world = \<lparr>txn = (\<lambda>h. None), promises = [], jobs = [], calls = [], next_obj = 0\<rparr>"

definition new_promise :: "world \<Rightarrow> nat \<times> world" where
  "new_promise w =
     (length (promises w),
      w\<lparr>promises := promises w @ [\<lparr>status = Pending, reactions = []\<rparr>]\<rparr>)"

text \<open>
  Fulfilling or rejecting a promise: only a pending promise changes, its reactions are
  queued in the order of their registration and then dropped.
\<close>

definition settle :: "nat \<Rightarrow> pstate \<Rightarrow> world \<Rightarrow> world" where
  "settle p st w =
     (if p < length (promises w) \<and> status (promises w ! p) = Pending \<and> st \<noteq> Pending
      then w\<lparr>promises := (promises w)[p := \<lparr>status = st, reactions = []\<rparr>],
             jobs := jobs w @ map (\<lambda>r. ReactionJob r st) (reactions (promises w ! p))\<rparr>
      else w)"

text \<open>
  \<open>p.then(onFulfilled, onRejected)\<close>: the derived promise is returned; the reaction
  waits on a pending \<open>p\<close> and is queued at once on a settled one.
\<close>

definition promise_then ::
  "nat \<Rightarrow> handler option \<Rightarrow> handler option \<Rightarrow> world \<Rightarrow> nat \<times> world" where
  "promise_then p onF onR w =
     (let (d, w1) = new_promise w;
          r = \<lparr>onFulfilled = onF, onRejected = onR, derived = d\<rparr>
      in if p < length (promises w)
         then (case status (promises w ! p) of
                 Pending \<Rightarrow>
                   (d, w1\<lparr>promises := (promises w1)
                          [p := (promises w1 ! p)
                             \<lparr>reactions := reactions (promises w1 ! p) @ [r]\<rparr>]\<rparr>)
               | Fulfilled v \<Rightarrow> (d, w1\<lparr>jobs := jobs w1 @ [ReactionJob r (Fulfilled v)]\<rparr>)
               | Rejected v \<Rightarrow> (d, w1\<lparr>jobs := jobs w1 @ [ReactionJob r (Rejected v)]\<rparr>))
         else (d, w1))"

text \<open>\<open>p.catch(onRejected)\<close> is \<open>p.then(undefined, onRejected)\<close>.\<close>

definition promise_catch :: "nat \<Rightarrow> handler \<Rightarrow> world \<Rightarrow> nat \<times> world" where
  "promise_catch p onR w = promise_then p None (Some onR) w"

section \<open>useERC20.ts\<close>

text \<open>
  The parameters of the hooks: \<open>ethereum\<close>, typed \<open>any | Provider | Signer\<close>, and
  the address of the contract. (The interface \<open>UseContractParams\<close> of the second source
  file has the same two fields.)
\<close>

record useERC20Params =
  ethereum :: jsval
  contractAddress :: string

text \<open>
  The interface \<open>ERC20\<close>: nine functions, each returning a promise. A call takes the
  world and returns the promise with the world in which it exists.
\<close>

record ERC20 =
  name :: "world \<Rightarrow> nat \<times> world"
  symbol :: "world \<Rightarrow> nat \<times> world"
  decimals :: "world \<Rightarrow> nat \<times> world"
  totalSupply :: "world \<Rightarrow> nat \<times> world"
  balanceOf :: "string \<Rightarrow> world \<Rightarrow> nat \<times> world"
  allowance :: "string \<Rightarrow> string \<Rightarrow> world \<Rightarrow> nat \<times> world"
  approve :: "string \<Rightarrow> BigNumberish \<Rightarrow> world \<Rightarrow> nat \<times> world"
  transfer :: "string \<Rightarrow> BigNumberish \<Rightarrow> world \<Rightarrow> nat \<times> world"
  transferFrom :: "string \<Rightarrow> string \<Rightarrow> BigNumberish \<Rightarrow> world \<Rightarrow> nat \<times> world"

text \<open>
  The generated contract class \<open>ERC20Abi\<close> has the nine methods and more; of the rest
  the model keeps the address the contract is bound to.
\<close>

record ERC20Abi = ERC20 +
  address :: string

text \<open>
  A method of the bound contract starts the network request and returns its promise,
  pending; the network settles it later. The call is logged.
\<close>

definition call_contract :: "string \<Rightarrow> contract_call \<Rightarrow> world \<Rightarrow> nat \<times> world" where
  "call_contract addr c w =
     (let (p, w1) = new_promise w
      in (p, w1\<lparr>calls := calls w1 @ [\<lparr>target = addr, invoked = c, returned = p\<rparr>]\<rparr>))"

text \<open>
  Modelled from the spec: \<open>ERC20Abi__factory.connect\<close>, of the generated module
  \<open>./generated\<close>, which is not among the sources. The spec's Contract Binder: given
  the connection handle and the contract address it returns a bound contract object
  exposing the fixed operation set; construction performs no network I/O, the handle
  performs it when an operation is invoked. Construction with malformed parameters,
  which throws, is left out: the model is of a hook that has been mounted.
\<close>

definition ERC20Abi__factory_connect :: "string \<Rightarrow> jsval \<Rightarrow> ERC20Abi" where
  "ERC20Abi__factory_connect addr e =
     \<lparr>name = call_contract addr Name,
      symbol = call_contract addr Symbol,
      decimals = call_contract addr Decimals,
      totalSupply = call_contract addr TotalSupply,
      balanceOf = (\<lambda>owner. call_contract addr (BalanceOf owner)),
      allowance = (\<lambda>owner spender. call_contract addr (Allowance owner spender)),
      approve = (\<lambda>spender amount. call_contract addr (Approve spender amount)),
      transfer = (\<lambda>to amount. call_contract addr (Transfer to amount)),
      transferFrom = (\<lambda>from to amount. call_contract addr (TransferFrom from to amount)),
      address = addr\<rparr>"

text \<open>
  \<^verbatim>\<open>const connect = (e, addr) => ERC20Abi__factory.connect(addr, e);
const [contract, setContract] = useState<ERC20Abi>(connect(params.ethereum, params.contractAddress));
return { name: contract.name, ..., transferFrom: contract.transferFrom } as const\<close>
  The state cell holds the contract of the first render and \<open>setContract\<close> is never
  called, so for fixed parameters \<open>contract\<close> is the value of \<open>connect\<close>.
\<close>

definition connect :: "jsval \<Rightarrow> string \<Rightarrow> ERC20Abi" where
  "connect e addr = ERC20Abi__factory_connect addr e"

definition useERC20 :: "useERC20Params \<Rightarrow> ERC20" where
  "useERC20 params =
     (let contract = connect (ethereum params) (contractAddress params)
      in \<lparr>name = name contract,
          symbol = symbol contract,
          decimals = decimals contract,
          totalSupply = totalSupply contract,
          balanceOf = balanceOf contract,
          allowance = allowance contract,
          approve = approve contract,
          transfer = transfer contract,
          transferFrom = transferFrom contract\<rparr>)"

text \<open>
  \<open>setTxn\<close>, the setter of the state cell of hook \<open>h\<close>: the next render reads the
  value stored last.
\<close>

definition setTxn :: "hook \<Rightarrow> TransactionResult \<Rightarrow> world \<Rightarrow> world" where
  "setTxn h v w = w\<lparr>txn := (txn w)(h := Some v)\<rparr>"

text \<open>
  \<^verbatim>\<open>const setResult = (tx: ContractTransaction) => setTxn({transaction: tx})
const setErr = (e: any) => setTxn({error: asError(e)})\<close>
  Both return what \<open>setTxn\<close> returns, \<open>undefined\<close>; \<open>setErr\<close> throws what
  \<open>asError\<close> throws, before \<open>setTxn\<close> is reached.
\<close>

definition setResult :: "hook \<Rightarrow> jsval \<Rightarrow> world \<Rightarrow> (jsval + jsval) \<times> world" where
  "setResult h tx w = (Inr JUndefined, setTxn h \<lparr>transaction = Some tx, error = None\<rparr> w)"

definition setErr :: "hook \<Rightarrow> jsval \<Rightarrow> world \<Rightarrow> (jsval + jsval) \<times> world" where
  "setErr h e w =
     (case asError e (next_obj w) of
        (Inl thrown, a) \<Rightarrow> (Inl thrown, w\<lparr>next_obj := a\<rparr>)
      | (Inr err, a) \<Rightarrow>
          (Inr JUndefined,
           setTxn h \<lparr>transaction = None, error = Some err\<rparr> (w\<lparr>next_obj := a\<rparr>)))"

fun call_handler :: "handler \<Rightarrow> jsval \<Rightarrow> world \<Rightarrow> (jsval + jsval) \<times> world" where
  "call_handler (SetResult h) v w = setResult h v w"
| "call_handler (SetErr h) v w = setErr h v w"

text \<open>
  A reaction job: without a handler the settlement passes to the derived promise; with
  one, the derived promise is fulfilled with what the handler returns or rejected with
  what it throws.
\<close>

fun complete :: "nat \<Rightarrow> (jsval + jsval) \<times> world \<Rightarrow> world" where
  "complete d (Inl thrown, w) = settle d (Rejected thrown) w"
| "complete d (Inr v, w) = settle d (Fulfilled v) w"

fun run_job :: "job \<Rightarrow> world \<Rightarrow> world" where
  "run_job (ReactionJob r Pending) w = w"
| "run_job (ReactionJob r (Fulfilled v)) w =
     (case onFulfilled r of
        None \<Rightarrow> settle (derived r) (Fulfilled v) w
      | Some h \<Rightarrow> complete (derived r) (call_handler h v w))"
| "run_job (ReactionJob r (Rejected v)) w =
     (case onRejected r of
        None \<Rightarrow> settle (derived r) (Rejected v) w
      | Some h \<Rightarrow> complete (derived r) (call_handler h v w))"

text \<open>One turn of the job queue runs its oldest job.\<close>

definition tick :: "world \<Rightarrow> world" where
  "tick w = (case jobs w of [] \<Rightarrow> w | j # js \<Rightarrow> run_job j (w\<lparr>jobs := js\<rparr>))"

text \<open>
  \<^verbatim>\<open>function useContract(params: useERC20Params) {
	const contract = useERC20(params);
	const [txn, setTxn] = useState<TransactionResult>();
	...
	return [{contract, setResult, setErr}, txn] as const
}\<close>
  A render in world \<open>w\<close> reads the state cell of \<open>w\<close>. The first argument is not
  one of the source: it names the hook that makes the call, and so the cell that this
  call of \<open>useState\<close> gets.
\<close>

definition useContract ::
  "hook \<Rightarrow> useERC20Params \<Rightarrow> world \<Rightarrow>
     (ERC20 \<times> handler \<times> handler) \<times> TransactionResult option" where
  "useContract h params w = ((useERC20 params, SetResult h, SetErr h), txn w h)"

text \<open>
  \<^verbatim>\<open>const fn = (spender: string, amount: BigNumberish) =>
	contract.approve(spender, amount)
		.then(setResult)
		.catch(setErr)
return [fn, txn] as const\<close>
  The arrow function has an expression body: it returns the promise of \<open>.catch\<close>.
  The trigger runs later than the render, in the world it is called in.
\<close>

definition useApprove ::
  "useERC20Params \<Rightarrow> world \<Rightarrow>
     (string \<Rightarrow> BigNumberish \<Rightarrow> world \<Rightarrow> nat \<times> world) \<times> TransactionResult option" where
  "useApprove params w =
     (let ((contract, setResult', setErr'), txn') = useContract UseApprove params w;
          fn = (\<lambda>spender amount v.
                  let (p0, v1) = approve contract spender amount v;
                      (p1, v2) = promise_then p0 (Some setResult') None v1
                  in promise_catch p1 setErr' v2)
      in (fn, txn'))"

definition useTransfer ::
  "useERC20Params \<Rightarrow> world \<Rightarrow>
     (string \<Rightarrow> BigNumberish \<Rightarrow> world \<Rightarrow> nat \<times> world) \<times> TransactionResult option" where
  "useTransfer params w =
     (let ((contract, setResult', setErr'), txn') = useContract UseTransfer params w;
          fn = (\<lambda>to amount v.
                  let (p0, v1) = transfer contract to amount v;
                      (p1, v2) = promise_then p0 (Some setResult') None v1
                  in promise_catch p1 setErr' v2)
      in (fn, txn'))"

definition useTransferFrom ::
  "useERC20Params \<Rightarrow> world \<Rightarrow>
     (string \<Rightarrow> string \<Rightarrow> BigNumberish \<Rightarrow> world \<Rightarrow> nat \<times> world) \<times> TransactionResult option" where
  "useTransferFrom params w =
     (let ((contract, setResult', setErr'), txn') = useContract UseTransferFrom params w;
          fn = (\<lambda>from to amount v.
                  let (p0, v1) = transferFrom contract from to amount v;
                      (p1, v2) = promise_then p0 (Some setResult') None v1
                  in promise_catch p1 setErr' v2)
      in (fn, txn'))"

section \<open>Running the job queue\<close>

text \<open>
  The queue is run until it is empty. That this ends is not obvious from the code of a
  job, which may queue further jobs; the measure below counts the queued jobs and the
  reactions that still wait on a pending promise, and every turn lowers it by one.
\<close>

definition pending_weight :: "promise \<Rightarrow> nat" where
  "pending_weight p = (if status p = Pending then length (reactions p) else 0)"

definition queue_weight :: "world \<Rightarrow> nat" where
  "queue_weight w = length (jobs w) + sum_list (map pending_weight (promises w))"

function drain :: "world \<Rightarrow> world" where
  "drain w = (if jobs w = [] then w else drain (tick w))"
  by pat_completeness auto
termination
proof (relation "measure queue_weight")
  show "wf (measure queue_weight)"
    by simp
next
  fix w :: world
  assume busy: "jobs w \<noteq> []"
  have update: "sum_list (map pending_weight (ps[i := q])) + pending_weight (ps ! i) =
      sum_list (map pending_weight ps)"
    if "i < length ps" and "pending_weight q = 0" for ps i q
    using that by (induction ps arbitrary: i) (auto split: nat.splits)
  have settled: "queue_weight (settle p st v) = queue_weight v" for p st v
  proof (cases "p < length (promises v) \<and> status (promises v ! p) = Pending \<and> st \<noteq> Pending")
    case True
    then have "sum_list (map pending_weight ((promises v)[p := \<lparr>status = st, reactions = []\<rparr>]))
        + pending_weight (promises v ! p) = sum_list (map pending_weight (promises v))"
      by (intro update) (auto simp: pending_weight_def)
    with True show ?thesis
      by (simp add: settle_def queue_weight_def pending_weight_def)
  next
    case False
    then show ?thesis
      by (auto simp: settle_def)
  qed
  have handled: "queue_weight (complete d (call_handler h x v)) = queue_weight v" for d h x v
  proof -
    obtain res v' where eq: "call_handler h x v = (res, v')"
      by (cases "call_handler h x v")
    then have "promises v' = promises v \<and> jobs v' = jobs v"
      by (cases h) (auto simp: setResult_def setErr_def setTxn_def split: prod.splits sum.splits)
    then have "queue_weight v' = queue_weight v"
      by (simp add: queue_weight_def)
    then show ?thesis
      using eq by (cases res) (simp_all add: settled)
  qed
  have ran: "queue_weight (run_job j v) = queue_weight v" for j v
  proof (cases j)
    case (ReactionJob r st)
    then show ?thesis
      by (cases st) (auto simp: settled handled split: option.splits)
  qed
  obtain j js where js: "jobs w = j # js"
    using busy by (cases "jobs w") auto
  have "queue_weight (tick w) = queue_weight (w\<lparr>jobs := js\<rparr>)"
    using js by (simp add: tick_def ran)
  also have "\<dots> < queue_weight w"
    using js by (simp add: queue_weight_def)
  finally show "(tick w, w) \<in> measure queue_weight"
    by simp
qed

declare drain.simps [simp del]

section \<open>Traces of a mounted component\<close>

text \<open>
  What can happen to a mounted component: the trigger of one of its hooks is invoked, a
  method of the object returned by \<open>useERC20\<close> is called directly, the network settles
  the promise of a contract call (and of nothing else), or the job queue takes a turn.
  Settlements and turns of the queue interleave freely: the reactions of a settlement
  need not have run when the next promise settles.
\<close>

fun erc20_call :: "ERC20 \<Rightarrow> contract_call \<Rightarrow> world \<Rightarrow> nat \<times> world" where
  "erc20_call c Name = name c"
| "erc20_call c Symbol = symbol c"
| "erc20_call c Decimals = decimals c"
| "erc20_call c TotalSupply = totalSupply c"
| "erc20_call c (BalanceOf owner) = balanceOf c owner"
| "erc20_call c (Allowance owner spender) = allowance c owner spender"
| "erc20_call c (Approve spender amount) = approve c spender amount"
| "erc20_call c (Transfer to amount) = transfer c to amount"
| "erc20_call c (TransferFrom from to amount) = transferFrom c from to amount"

datatype event =
    InvokeApprove string BigNumberish
  | InvokeTransfer string BigNumberish
  | InvokeTransferFrom string string BigNumberish
  | Direct contract_call
  | Settle nat pstate
  | Tick

fun apply_event :: "useERC20Params \<Rightarrow> event \<Rightarrow> world \<Rightarrow> world" where
  "apply_event params (InvokeApprove spender amount) w =
     snd (fst (useApprove params w) spender amount w)"
| "apply_event params (InvokeTransfer to amount) w =
     snd (fst (useTransfer params w) to amount w)"
| "apply_event params (InvokeTransferFrom from to amount) w =
     snd (fst (useTransferFrom params w) from to amount w)"
| "apply_event params (Direct c) w = snd (erc20_call (useERC20 params) c w)"
| "apply_event params (Settle p st) w =
     (if p \<in> returned ` set (calls w) then settle p st w else w)"
| "apply_event params Tick w = tick w"

fun run :: "useERC20Params \<Rightarrow> event list \<Rightarrow> world \<Rightarrow> world" where
  "run params [] w = w"
| "run params (ev # evs) w = run params evs (apply_event params ev w)"


text \<open>A result with at most one of its two fields present; \<open>undefined\<close> has none.\<close>

fun at_most_one_field :: "TransactionResult option \<Rightarrow> bool" where
  "at_most_one_field None = True"
| "at_most_one_field (Some r) = (transaction r = None \<or> error r = None)"

text \<open>
  The contract call a trigger event issues, the hook whose trigger it invokes, the events
  that settle a promise, and the calls that are queries.
\<close>

fun invoked_call :: "event \<Rightarrow> contract_call option" where
  "invoked_call (InvokeApprove spender amount) = Some (Approve spender amount)"
| "invoked_call (InvokeTransfer to amount) = Some (Transfer to amount)"
| "invoked_call (InvokeTransferFrom from to amount) = Some (TransferFrom from to amount)"
| "invoked_call ev = None"



fun is_read :: "contract_call \<Rightarrow> bool" where
  "is_read (Approve spender amount) = False"
| "is_read (Transfer to amount) = False"
| "is_read (TransferFrom from to amount) = False"
| "is_read c = True"

section \<open>Auxiliary definitions\<close>

text \<open>
  These are not code of the repository: they are the closed forms and the invariants the
  proofs below use. \<open>chain n h s0 s1 s2\<close> is the shape of the three promises one call of
  the trigger of hook \<open>h\<close> creates at positions \<open>n\<close>, \<open>n + 1\<close> and \<open>n + 2\<close> of the store (the
  contract call's promise, the promise of \<open>.then(setResult)\<close> and the promise of
  \<open>.catch(setErr)\<close>) in the states \<open>s0\<close>, \<open>s1\<close> and \<open>s2\<close>: a pending
  promise of the chain holds the reaction of its successor, a settled one holds none.
  \<open>trigger\<close> is the closed form of a trigger call, proved equal to each of the three
  triggers below. \<open>demo_params\<close> are parameters for the concrete examples.
  \<open>snapshot h u\<close> is what a handler of hook \<open>h\<close> reads and writes: the state cell and
  the next free object identity. \<open>effect st\<close> is what the handler of a call settled with
  \<open>st\<close> does to them: \<open>setResult\<close> for a fulfilment, \<open>setErr\<close> for a rejection.
\<close>

definition chain :: "nat \<Rightarrow> hook \<Rightarrow> pstate \<Rightarrow> pstate \<Rightarrow> pstate \<Rightarrow> promise list" where
  "chain n h s0 s1 s2 =
     [\<lparr>status = s0,
       reactions = (if s0 = Pending
         then [\<lparr>onFulfilled = Some (SetResult h), onRejected = None, derived = n + 1\<rparr>]
         else [])\<rparr>,
      \<lparr>status = s1,
       reactions = (if s1 = Pending
         then [\<lparr>onFulfilled = None, onRejected = Some (SetErr h), derived = n + 2\<rparr>]
         else [])\<rparr>,
      \<lparr>status = s2, reactions = []\<rparr>]"

definition trigger :: "string \<Rightarrow> hook \<Rightarrow> contract_call \<Rightarrow> world \<Rightarrow> nat \<times> world" where
  "trigger addr h c w =
     (length (promises w) + 2,
      w\<lparr>promises := promises w @ chain (length (promises w)) h Pending Pending Pending,
        calls := calls w @
          [\<lparr>target = addr, invoked = c, returned = length (promises w)\<rparr>]\<rparr>)"



definition demo_params :: useERC20Params where
  "demo_params = \<lparr>ethereum = JPlain 100 [], contractAddress = ''0xToken''\<rparr>"

text \<open>
  The invariants. \<open>job_target\<close> is the promise a job settles. \<open>waits n rs v\<close>:
  promise \<open>n\<close> exists and, as long as it is pending, holds the reactions \<open>rs\<close>.
  \<open>over n v\<close>: promise \<open>n\<close> exists and is settled. \<open>bounded v\<close>: every
  reaction, every job and every logged call refers to a promise that exists; this holds in
  every world a trace reaches. \<open>sealed Q v\<close>: the promises of \<open>Q\<close> exist, and a
  reaction that targets one of them waits on a promise of \<open>Q\<close>. \<open>clear Q js\<close>: no
  job of \<open>js\<close> targets a promise of \<open>Q\<close>. \<open>kept Q v v'\<close>: from \<open>v\<close> to
  \<open>v'\<close> the store has kept its length, the call log is the same and the promises of
  \<open>Q\<close> are unchanged. \<open>quiet_step Q js v v'\<close>: a step from \<open>v\<close> to \<open>v'\<close>
  that leaves \<open>Q\<close> alone and queues, behind \<open>js\<close>, only jobs that do.
  \<open>isolated n v\<close>: nothing but the chain at \<open>n\<close> itself refers to its three
  promises. \<open>same3 n v v'\<close>: the three promises of the chain at \<open>n\<close> are the same
  in \<open>v\<close> and \<open>v'\<close>.
\<close>

fun job_target :: "job \<Rightarrow> nat" where
  "job_target (ReactionJob r st) = derived r"

definition waits :: "nat \<Rightarrow> reaction list \<Rightarrow> world \<Rightarrow> bool" where
  "waits n rs v = (n < length (promises v) \<and>
     (status (promises v ! n) = Pending \<longrightarrow> reactions (promises v ! n) = rs))"

definition over :: "nat \<Rightarrow> world \<Rightarrow> bool" where
  "over n v = (n < length (promises v) \<and> status (promises v ! n) \<noteq> Pending)"

definition bounded :: "world \<Rightarrow> bool" where
  "bounded v = ((\<forall>pr \<in> set (promises v). \<forall>r \<in> set (reactions pr).
        derived r < length (promises v)) \<and>
     (\<forall>j \<in> set (jobs v). job_target j < length (promises v)) \<and>
     (\<forall>c \<in> set (calls v). returned c < length (promises v)))"

definition sealed :: "nat set \<Rightarrow> world \<Rightarrow> bool" where
  "sealed Q v = ((\<forall>q \<in> Q. q < length (promises v)) \<and>
     (\<forall>i < length (promises v). \<forall>r \<in> set (reactions (promises v ! i)).
        derived r \<in> Q \<longrightarrow> i \<in> Q))"

definition clear :: "nat set \<Rightarrow> job list \<Rightarrow> bool" where
  "clear Q js = (\<forall>j \<in> set js. job_target j \<notin> Q)"

definition kept :: "nat set \<Rightarrow> world \<Rightarrow> world \<Rightarrow> bool" where
  "kept Q v v' = (length (promises v') = length (promises v) \<and> calls v' = calls v \<and>
      (\<forall>q \<in> Q. promises v' ! q = promises v ! q))"

definition quiet_step :: "nat set \<Rightarrow> job list \<Rightarrow> world \<Rightarrow> world \<Rightarrow> bool" where
  "quiet_step Q js v v' = (sealed Q v' \<and> kept Q v v' \<and>
     (\<exists>extra. jobs v' = js @ extra \<and> clear Q extra))"

definition isolated :: "nat \<Rightarrow> world \<Rightarrow> bool" where
  "isolated n v = (sealed {n, n + 1, n + 2} v \<and> clear {n, n + 1, n + 2} (jobs v) \<and>
     (\<forall>c \<in> set (calls v). returned c \<noteq> n + 1 \<and> returned c \<noteq> n + 2))"

definition same3 :: "nat \<Rightarrow> world \<Rightarrow> world \<Rightarrow> bool" where
  "same3 n v v' = (promises v' ! n = promises v ! n \<and>
     promises v' ! (n + 1) = promises v ! (n + 1) \<and>
     promises v' ! (n + 2) = promises v ! (n + 2))"

section \<open>The error normaliser\<close>

text \<open>
  A conversion that returns has created no object, and what \<open>ToPrimitive\<close> returns is
  a primitive value. A conversion that throws throws the same value or, when the thrown
  value is created by the engine, a \<open>TypeError\<close> with the next free identity.
\<close>

lemma ToPrimitive_state: "ToPrimitive x b = (Inr p, b') \<Longrightarrow> b' = b \<and> \<not> is_object p"
  by (cases x)
    (auto simp: OrdinaryToPrimitive_def throw_TypeError_def Let_def
      split: option.splits sum.splits if_splits)

lemma ToString_primitive_state: "ToString_primitive x b = (Inr s, b') \<Longrightarrow> b' = b"
  by (cases x) (auto simp: throw_TypeError_def)

lemma ToString_state: "ToString x b = (Inr s, b') \<Longrightarrow> b' = b"
  by (auto simp: ToString_def js_bind_def split: prod.splits sum.splits
      dest: ToPrimitive_state ToString_primitive_state)

lemma ToPrimitive_returns: "ToPrimitive x b = (Inr p, b') \<Longrightarrow> ToPrimitive x c = (Inr p, c)"
  by (cases x)
    (auto simp: OrdinaryToPrimitive_def throw_TypeError_def Let_def
      split: option.splits sum.splits if_splits)

lemma ToString_primitive_returns:
  "ToString_primitive x b = (Inr s, b') \<Longrightarrow> ToString_primitive x c = (Inr s, c)"
  by (cases x) (auto simp: throw_TypeError_def)

lemma ToString_returns: "ToString x b = (Inr s, b') \<Longrightarrow> ToString x c = (Inr s, c)"
proof -
  assume conv: "ToString x b = (Inr s, b')"
  then obtain p b1 where p: "ToPrimitive x b = (Inr p, b1)"
    and s: "ToString_primitive p b1 = (Inr s, b')"
    by (auto simp: ToString_def js_bind_def split: prod.splits sum.splits)
  show ?thesis
    using ToPrimitive_returns[OF p, of c] ToString_primitive_returns[OF s, of c]
    by (simp add: ToString_def js_bind_def)
qed

lemma convertible_iff: "convertible x \<longleftrightarrow> (\<exists>s. ToString x b = (Inr s, b))"
proof
  assume "convertible x"
  then obtain s a where "ToString x 0 = (Inr s, a)"
    by (cases "ToString x 0"; cases "fst (ToString x 0)") (auto simp: convertible_def)
  then show "\<exists>s. ToString x b = (Inr s, b)"
    using ToString_returns by blast
next
  assume "\<exists>s. ToString x b = (Inr s, b)"
  then obtain s where "ToString x b = (Inr s, b)"
    by blast
  then have "ToString x 0 = (Inr s, 0)"
    by (rule ToString_returns)
  then show "convertible x"
    by (simp add: convertible_def)
qed

lemma ToString_simps:
  "ToString JUndefined a = (Inr ''undefined'', a)"
  "ToString JNull a = (Inr ''null'', a)"
  "ToString (JBool b) a = (Inr (if b then ''true'' else ''false''), a)"
  "ToString (JNum n) a = (Inr (show_int (sint n)), a)"
  "ToString (JStr s) a = (Inr s, a)"
  "ToString (JSymbol d) a = throw_TypeError ''Cannot convert a Symbol value to a string'' a"
  by (simp_all add: ToString_def js_bind_def)

text \<open>
  An object of which neither \<open>toString\<close> nor \<open>valueOf\<close> is a function of its own has
  a conversion only when it inherits one.
\<close>

lemma call_method_inherited:
  "call_method ps k None = None \<Longrightarrow>
   call_method ps k (Some out) = (if map_of ps k = None then Some out else None)"
  by (auto simp: call_method_def split: option.splits jsval.splits)

lemma no_method_TypeError:
  assumes "call_method ps ''toString'' None = None" and "call_method ps ''valueOf'' None = None"
  shows "OrdinaryToPrimitive ps None None b =
      throw_TypeError ''Cannot convert object to primitive value'' b"
    and "map_of ps ''toString'' \<noteq> None \<Longrightarrow>
      OrdinaryToPrimitive ps (Some out) (Some (Inr (JPlain i ps))) b =
      throw_TypeError ''Cannot convert object to primitive value'' b"
  using assms call_method_inherited[of ps "''valueOf''" "Inr (JPlain i ps)"]
    call_method_inherited[of ps "''toString''" out]
  by (auto simp: OrdinaryToPrimitive_def)

lemma asError_ok:
  "instanceof_Error R \<or> convertible R \<Longrightarrow> \<exists>e a. asError R b = (Inr e, a)"
  using convertible_iff[of R "Suc b"] by (auto simp: asError_def new_Error_def)

lemma asError_thrown:
  assumes "\<not> instanceof_Error R" and "\<not> convertible R"
  shows "\<exists>t a. asError R b = (Inl t, a) \<and> ToString R (Suc b) = (Inl t, a)"
proof -
  obtain res a where res: "ToString R (Suc b) = (res, a)"
    by (cases "ToString R (Suc b)")
  have "R \<noteq> JUndefined"
    using assms(2) by (auto simp: convertible_def ToString_simps)
  moreover have "\<exists>t. res = Inl t"
  proof (cases res)
    case (Inr s)
    then have "ToString R (Suc b) = (Inr s, Suc b)"
      using res ToString_state by blast
    then show ?thesis
      using assms(2) convertible_iff by blast
  qed simp
  ultimately show ?thesis
    using assms(1) res by (auto simp: asError_def new_Error_def)
qed




text \<open>
  C5. For an input \<open>e\<close> that is an \<open>Error\<close>, \<open>asError(e)\<close> returns \<open>e\<close> itself:
  the same object, and no object is created. Hence \<open>asError\<close> is idempotent: applying
  it to its own result changes nothing, whether the first application returned or threw.
\<close>

theorem asError_identity:
  "(instanceof_Error e \<longrightarrow> asError e a = (Inr e, a)) \<and>
   js_bind (asError x) asError a = asError x a"
proof
  show "instanceof_Error e \<longrightarrow> asError e a = (Inr e, a)"
    by (simp add: asError_def)
  show "js_bind (asError x) asError a = asError x a"
    by (auto simp: js_bind_def asError_def new_Error_def split: prod.splits sum.splits)
qed

theorem asError_identity_witness:
  "asError (JError 3 TypeError (Some ''x'')) 9 = (Inr (JError 3 TypeError (Some ''x'')), 9) \<and>
   js_bind (asError (JNum 1)) asError 9 = (Inr (JError 9 Error (Some ''1'')), 10)"
  using asError_identity[of "JError 3 TypeError (Some ''x'')" 9 "JNum 1"]
  by (simp add: asError_def new_Error_def ToString_simps show_int_def digit_def)

text \<open>
  C6, as amended. \<open>asError\<close> returns normally, with an \<open>Error\<close>, exactly on the inputs
  that are an \<open>Error\<close> or that \<open>ToString\<close>, the conversion \<open>new Error\<close> applies to
  its argument, converts. Among them are \<open>undefined\<close>, \<open>null\<close>, booleans, numbers,
  strings, and the objects converted by an inherited method: object literals, nested or
  not, without a \<open>toString\<close> property of their own (\<open>Object.prototype.toString\<close>)
  and functions (\<open>Function.prototype.toString\<close>). On every other input \<open>asError\<close>
  throws what the conversion throws. This is a \<open>TypeError\<close> for a symbol and for an
  object that has no conversion method to call: an object without a prototype whose own
  \<open>toString\<close> and \<open>valueOf\<close>, if any, are not functions, and an object literal whose
  own \<open>toString\<close> is not a function and whose own \<open>valueOf\<close>, if any, is not one
  either. (All this is of objects without a \<open>Symbol.toPrimitive\<close> method, which the
  value type leaves out.)
\<close>

theorem asError_returns:
  "(instanceof_Error x \<or> convertible x \<longrightarrow>
      (\<exists>v. fst (asError x a) = Inr v \<and> instanceof_Error v)) \<and>
   (\<not> instanceof_Error x \<and> \<not> convertible x \<longrightarrow>
      (\<exists>t. fst (asError x a) = Inl t \<and> fst (ToString x (Suc a)) = Inl t)) \<and>
   (x = JUndefined \<or> x = JNull \<or> x = JBool b \<or> x = JNum n \<or> x = JStr s \<or>
    x = JFunction i src out \<or> (x = JPlain i ps \<and> map_of ps ''toString'' = None) \<longrightarrow>
      convertible x) \<and>
   (x = JSymbol d \<or>
    ((x = JNullProto i ps \<or> (x = JPlain i ps \<and> map_of ps ''toString'' \<noteq> None)) \<and>
     call_method ps ''toString'' None = None \<and> call_method ps ''valueOf'' None = None) \<longrightarrow>
      (\<exists>m. fst (asError x a) = Inl (JError (Suc a) TypeError m)))"
proof (intro conjI impI)
  assume "instanceof_Error x \<or> convertible x"
  then obtain e a' where e: "asError x a = (Inr e, a')"
    using asError_ok by blast
  then have "instanceof_Error e"
    by (auto simp: asError_def new_Error_def split: if_splits prod.splits sum.splits)
  then show "\<exists>v. fst (asError x a) = Inr v \<and> instanceof_Error v"
    using e by simp
next
  assume "\<not> instanceof_Error x \<and> \<not> convertible x"
  then obtain t a' where "asError x a = (Inl t, a')" "ToString x (Suc a) = (Inl t, a')"
    using asError_thrown[of x a] by blast
  then show "\<exists>t. fst (asError x a) = Inl t \<and> fst (ToString x (Suc a)) = Inl t"
    by simp
next
  assume "x = JUndefined \<or> x = JNull \<or> x = JBool b \<or> x = JNum n \<or> x = JStr s \<or>
    x = JFunction i src out \<or> (x = JPlain i ps \<and> map_of ps ''toString'' = None)"
  then show "convertible x"
    by (auto simp: convertible_def ToString_def js_bind_def OrdinaryToPrimitive_def
        call_method_def)
next
  assume "x = JSymbol d \<or>
    ((x = JNullProto i ps \<or> (x = JPlain i ps \<and> map_of ps ''toString'' \<noteq> None)) \<and>
     call_method ps ''toString'' None = None \<and> call_method ps ''valueOf'' None = None)"
  then show "\<exists>m. fst (asError x a) = Inl (JError (Suc a) TypeError m)"
    by (auto simp: asError_def new_Error_def ToString_def js_bind_def no_method_TypeError
        throw_TypeError_def)
qed

theorem asError_returns_witness:
  "(\<exists>v. fst (asError (JPlain 1 [(''inner'', JPlain 2 [(''n'', JNum 3)])]) 0) = Inr v
        \<and> instanceof_Error v)
   \<and> (\<exists>v. fst (asError (JNum 7) 0) = Inr v \<and> instanceof_Error v)
   \<and> (\<exists>v. fst (asError JUndefined 0) = Inr v \<and> instanceof_Error v)
   \<and> (\<exists>v. fst (asError (JNullProto 4
         [(''toString'', JFunction 5 ''() => reason'' (Inr (JStr ''gas'')))]) 0) = Inr v
        \<and> instanceof_Error v)
   \<and> fst (asError (JPlain 4
         [(''toString'', JFunction 5 ''() => { throw reason }'' (Inl (JStr ''no'')))]) 0) =
       Inl (JStr ''no'')
   \<and> (\<exists>m. fst (asError (JNullProto 4 [(''code'', JNum 3)]) 0) = Inl (JError 1 TypeError m))
   \<and> (\<exists>m. fst (asError (JPlain 4 [(''toString'', JStr ''x'')]) 0) = Inl (JError 1 TypeError m))
   \<and> (\<exists>m. fst (asError (JSymbol ''id'') 0) = Inl (JError 1 TypeError m))"
proof -
  have plain: "convertible (JPlain 1 [(''inner'', JPlain 2 [(''n'', JNum 3)])])"
    and called: "convertible (JNullProto 4
         [(''toString'', JFunction 5 ''() => reason'' (Inr (JStr ''gas'')))])"
    and threw: "\<not> convertible (JPlain 4
         [(''toString'', JFunction 5 ''() => { throw reason }'' (Inl (JStr ''no'')))])"
      "fst (ToString (JPlain 4
         [(''toString'', JFunction 5 ''() => { throw reason }'' (Inl (JStr ''no'')))]) 1) =
       Inl (JStr ''no'')"
    by (simp_all add: convertible_def ToString_def js_bind_def OrdinaryToPrimitive_def
        call_method_def)
  show ?thesis
    using asError_returns[of "JPlain 1 [(''inner'', JPlain 2 [(''n'', JNum 3)])]" 0]
      asError_returns[of "JNum 7" 0 _ 7] asError_returns[of JUndefined 0]
      asError_returns[of "JNullProto 4
         [(''toString'', JFunction 5 ''() => reason'' (Inr (JStr ''gas'')))]" 0]
      asError_returns[of "JPlain 4
         [(''toString'', JFunction 5 ''() => { throw reason }'' (Inl (JStr ''no'')))]" 0]
      asError_returns[of "JNullProto 4 [(''code'', JNum 3)]" 0 _ _ _ 4 _ _ "[(''code'', JNum 3)]"]
      asError_returns[of "JPlain 4 [(''toString'', JStr ''x'')]" 0 _ _ _ 4 _ _
        "[(''toString'', JStr ''x'')]"]
      asError_returns[of "JSymbol ''id''" 0 _ _ _ _ _ _ _ "''id''"]
      plain called threw
    by (simp add: call_method_def)
qed

text \<open>C6 as stated fails: on a symbol \<open>asError\<close> throws.\<close>

theorem asError_throws_counterexample:
  "asError (JSymbol ''id'') 0 =
     (Inl (JError 1 TypeError (Some ''Cannot convert a Symbol value to a string'')), 2)"
  by (simp add: asError_def new_Error_def ToString_simps throw_TypeError_def)

section \<open>The triggers and the promise store\<close>

lemma call_then_catch:
  "(let (p0, v1) = call_contract addr c w;
        (p1, v2) = promise_then p0 (Some (SetResult h)) None v1
    in promise_catch p1 (SetErr h) v2) = trigger addr h c w"
  by (simp add: call_contract_def new_promise_def promise_then_def promise_catch_def
      trigger_def chain_def Let_def nth_append list_update_append)

lemma useApprove_fn:
  "fst (useApprove params w0) spender amount w =
     trigger (contractAddress params) UseApprove (Approve spender amount) w"
  using call_then_catch[of "contractAddress params" "Approve spender amount" w UseApprove]
  by (simp add: useApprove_def useContract_def useERC20_def connect_def
      ERC20Abi__factory_connect_def Let_def)

lemma useTransfer_fn:
  "fst (useTransfer params w0) to amount w =
     trigger (contractAddress params) UseTransfer (Transfer to amount) w"
  using call_then_catch[of "contractAddress params" "Transfer to amount" w UseTransfer]
  by (simp add: useTransfer_def useContract_def useERC20_def connect_def
      ERC20Abi__factory_connect_def Let_def)

lemma useTransferFrom_fn:
  "fst (useTransferFrom params w0) from to amount w =
     trigger (contractAddress params) UseTransferFrom (TransferFrom from to amount) w"
  using call_then_catch[of "contractAddress params" "TransferFrom from to amount" w
      UseTransferFrom]
  by (simp add: useTransferFrom_def useContract_def useERC20_def connect_def
      ERC20Abi__factory_connect_def Let_def)

lemma hook_result:
  "snd (useApprove params w) = txn w UseApprove"
  "snd (useTransfer params w) = txn w UseTransfer"
  "snd (useTransferFrom params w) = txn w UseTransferFrom"
  by (simp_all add: useApprove_def useTransfer_def useTransferFrom_def useContract_def Let_def)

lemma erc20_call_useERC20:
  "erc20_call (useERC20 params) c = call_contract (contractAddress params) c"
  by (cases c) (simp_all add: useERC20_def connect_def ERC20Abi__factory_connect_def Let_def)

lemma length_chain: "length (chain n h s0 s1 s2) = 3"
  by (simp add: chain_def)

lemmas store_simps = settle_def tick_def setResult_def setErr_def setTxn_def chain_def
  nth_append list_update_append


text \<open>
  With no job waiting, settling the contract call's promise of an untouched chain and
  running the queue takes three jobs: the reaction of \<open>.then\<close>, the reaction of
  \<open>.catch\<close>, and nothing after.
\<close>

lemma drain_settle_fulfilled:
  assumes "jobs v = []"
    and "promises v = ps @ chain (length ps) h Pending Pending Pending @ qs"
  shows "drain (settle (length ps) (Fulfilled T) v) =
     v\<lparr>promises := ps @ chain (length ps) h (Fulfilled T) (Fulfilled JUndefined)
                       (Fulfilled JUndefined) @ qs,
       txn := (txn v)(h := Some \<lparr>transaction = Some T, error = None\<rparr>)\<rparr>"
  using assms
  apply (subst drain.simps)
  apply (simp add: store_simps)
  apply (subst drain.simps)
  apply (simp add: store_simps)
  apply (subst drain.simps)
  apply (simp add: store_simps)
  done

lemma drain_settle_rejected:
  assumes "jobs v = []"
    and "promises v = ps @ chain (length ps) h Pending Pending Pending @ qs"
  shows "drain (settle (length ps) (Rejected R) v) =
     (case asError R (next_obj v) of
        (Inr e, a) \<Rightarrow>
          v\<lparr>promises := ps @ chain (length ps) h (Rejected R) (Rejected R)
                            (Fulfilled JUndefined) @ qs,
            txn := (txn v)(h := Some \<lparr>transaction = None, error = Some e\<rparr>),
            next_obj := a\<rparr>
      | (Inl t, a) \<Rightarrow>
          v\<lparr>promises := ps @ chain (length ps) h (Rejected R) (Rejected R) (Rejected t) @ qs,
            next_obj := a\<rparr>)"
  using assms
  apply (subst drain.simps)
  apply (simp add: store_simps)
  apply (subst drain.simps)
  apply (simp add: store_simps)
  apply (subst drain.simps)
  apply (simp add: store_simps split: prod.splits sum.splits)
  done

text \<open>
  The queue is first in, first out: a job that is queued behind \<open>js\<close> is at the head
  after \<open>length js\<close> turns, whatever the jobs before it do.
\<close>

lemma txn_settle: "txn (settle p st w) = txn w"
  by (simp add: settle_def)

lemma jobs_settle: "\<exists>extra. jobs (settle p st v) = jobs v @ extra"
  by (simp add: settle_def)

lemma jobs_call_handler: "jobs (snd (call_handler h x v)) = jobs v"
  by (cases h) (auto simp: setResult_def setErr_def setTxn_def split: prod.splits sum.splits)

lemma jobs_complete: "\<exists>extra. jobs (complete d rv) = jobs (snd rv) @ extra"
  by (cases rv; cases "fst rv") (auto simp: jobs_settle)

lemma jobs_run_job: "\<exists>extra. jobs (run_job j v) = jobs v @ extra"
proof (cases j)
  case (ReactionJob r st)
  show ?thesis
  proof (cases st)
    case Pending
    then show ?thesis
      using ReactionJob by simp
  next
    case (Fulfilled x)
    then show ?thesis
      using ReactionJob jobs_settle[of "derived r" "Fulfilled x" v]
        jobs_complete[of "derived r" "call_handler (the (onFulfilled r)) x v"]
      by (cases "onFulfilled r") (auto simp: jobs_call_handler)
  next
    case (Rejected x)
    then show ?thesis
      using ReactionJob jobs_settle[of "derived r" "Rejected x" v]
        jobs_complete[of "derived r" "call_handler (the (onRejected r)) x v"]
      by (cases "onRejected r") (auto simp: jobs_call_handler)
  qed
qed

lemma jobs_tick: "jobs v = j # js \<Longrightarrow> \<exists>extra. jobs (tick v) = js @ extra"
  using jobs_run_job[of j "v\<lparr>jobs := js\<rparr>"] by (simp add: tick_def)

lemma job_reaches_head:
  "jobs v = js @ j # rest \<Longrightarrow> \<exists>rest'. jobs ((tick ^^ length js) v) = j # rest'"
proof (induction js arbitrary: v rest)
  case Nil
  then show ?case
    by simp
next
  case (Cons a js)
  then obtain extra where "jobs (tick v) = js @ j # (rest @ extra)"
    using jobs_tick[of v a "js @ j # rest"] by auto
  from Cons.IH[OF this] show ?case
    by (simp add: funpow_swap1)
qed

lemma setResult_job:
  "jobs v = ReactionJob r (Fulfilled T) # rest \<Longrightarrow> onFulfilled r = Some (SetResult h) \<Longrightarrow>
   txn (tick v) h = Some \<lparr>transaction = Some T, error = None\<rparr>"
  by (simp add: tick_def setResult_def setTxn_def txn_settle)

section \<open>Invariants of the promise store\<close>

text \<open>
  A handler touches the state cell and creates objects; the promises, the queue and the
  call log are not its business.
\<close>

lemma call_handler_frame:
  "promises (snd (call_handler h x v)) = promises v"
  "jobs (snd (call_handler h x v)) = jobs v"
  "calls (snd (call_handler h x v)) = calls v"
  by (cases h; auto simp: setResult_def setErr_def setTxn_def split: prod.splits sum.splits)+

text \<open>
  The reactions of a pending promise are changed by nothing but its own settlement, and a
  settled promise stays settled.
\<close>

lemma waits_settle: "waits n rs v \<Longrightarrow> waits n rs (settle q st v)"
  by (auto simp: waits_def settle_def nth_list_update)

lemma waits_call_handler: "waits n rs v \<Longrightarrow> waits n rs (snd (call_handler h x v))"
  by (simp add: waits_def call_handler_frame)

lemma waits_complete: "waits n rs (snd rv) \<Longrightarrow> waits n rs (complete d rv)"
  by (cases rv; cases "fst rv") (auto simp: waits_settle)

lemma waits_run_job: "waits n rs v \<Longrightarrow> waits n rs (run_job j v)"
proof (cases j)
  case (ReactionJob r st)
  assume "waits n rs v"
  then show ?thesis
    using ReactionJob
    by (cases st) (auto simp: waits_settle waits_complete waits_call_handler split: option.splits)
qed

lemma waits_tick: "waits n rs v \<Longrightarrow> waits n rs (tick v)"
proof (cases "jobs v")
  case Nil
  assume "waits n rs v"
  then show ?thesis using Nil by (simp add: tick_def)
next
  case (Cons j js)
  assume "waits n rs v"
  then have "waits n rs (v\<lparr>jobs := js\<rparr>)" by (simp add: waits_def)
  then show ?thesis using Cons by (simp add: tick_def waits_run_job)
qed

lemma waits_trigger: "waits n rs v \<Longrightarrow> waits n rs (snd (trigger addr h c v))"
  by (auto simp: waits_def trigger_def nth_append)

lemma waits_call_contract: "waits n rs v \<Longrightarrow> waits n rs (snd (call_contract addr c v))"
  by (auto simp: waits_def call_contract_def new_promise_def nth_append)

lemma waits_apply_event: "waits n rs v \<Longrightarrow> waits n rs (apply_event params ev v)"
  by (cases ev)
    (simp_all add: useApprove_fn useTransfer_fn useTransferFrom_fn waits_trigger waits_settle
      erc20_call_useERC20 waits_call_contract waits_tick)

lemma waits_run: "waits n rs v \<Longrightarrow> waits n rs (run params evs v)"
  by (induction evs arbitrary: v) (simp_all add: waits_apply_event)

lemma over_settle: "over n v \<Longrightarrow> over n (settle q st v)"
  by (auto simp: over_def settle_def nth_list_update)

lemma over_complete: "over n v \<Longrightarrow> over n (complete d (call_handler h x v))"
proof -
  assume o: "over n v"
  obtain res v' where eq: "call_handler h x v = (res, v')"
    by (cases "call_handler h x v")
  then have "promises v' = promises v"
    using call_handler_frame(1)[of h x v] by simp
  then have "over n v'"
    using o by (simp add: over_def)
  then show ?thesis
    unfolding eq by (cases res) (simp_all add: over_settle)
qed

lemma over_run_job: "over n v \<Longrightarrow> over n (run_job j v)"
proof (cases j)
  case (ReactionJob r st)
  assume "over n v"
  then show ?thesis
    unfolding ReactionJob
    by (cases st) (simp_all add: over_settle over_complete split: option.splits)
qed

lemma over_tick: "over n v \<Longrightarrow> over n (tick v)"
proof (cases "jobs v")
  case Nil
  assume "over n v"
  then show ?thesis
    using Nil by (simp add: tick_def)
next
  case (Cons j js)
  assume "over n v"
  then have "over n (v\<lparr>jobs := js\<rparr>)"
    by (simp add: over_def)
  then show ?thesis
    using Cons by (simp add: tick_def over_run_job)
qed

lemma over_trigger: "over n v \<Longrightarrow> over n (snd (trigger addr h c v))"
  by (auto simp: over_def trigger_def nth_append)

lemma over_call_contract: "over n v \<Longrightarrow> over n (snd (call_contract addr c v))"
  by (auto simp: over_def call_contract_def new_promise_def nth_append)

lemma over_apply_event: "over n v \<Longrightarrow> over n (apply_event params ev v)"
  by (cases ev)
    (simp_all add: useApprove_fn useTransfer_fn useTransferFrom_fn over_trigger over_settle
      erc20_call_useERC20 over_call_contract over_tick)

lemma over_run: "over n v \<Longrightarrow> over n (run params evs v)"
  by (induction evs arbitrary: v) (simp_all add: over_apply_event)

lemma still_pending:
  assumes "n < length (promises v)"
    and "status (promises (run params evs v) ! n) = Pending"
  shows "status (promises v ! n) = Pending"
proof (rule ccontr)
  assume "status (promises v ! n) \<noteq> Pending"
  then have "over n v"
    using assms(1) by (simp add: over_def)
  then have "over n (run params evs v)"
    by (rule over_run)
  then show False
    using assms(2) by (simp add: over_def)
qed

lemma settle_noop:
  "status (promises (settle d st v) ! d) = Pending \<Longrightarrow> settle d st v = v"
  by (auto simp: settle_def split: if_splits)

text \<open>Every world a trace reaches is bounded.\<close>

lemma bounded_settle:
  assumes "bounded v"
  shows "bounded (settle d st v)"
proof (cases "d < length (promises v) \<and> status (promises v ! d) = Pending \<and> st \<noteq> Pending")
  case False
  then show ?thesis
    using assms by (auto simp: settle_def)
next
  case True
  then have "promises v ! d \<in> set (promises v)"
    by simp
  then have moved: "\<forall>r \<in> set (reactions (promises v ! d)). derived r < length (promises v)"
    using assms unfolding bounded_def by blast
  have stored: "pr \<in> set (promises v) \<or> reactions pr = []"
    if "pr \<in> set ((promises v)[d := \<lparr>status = st, reactions = []\<rparr>])" for pr
    using that set_update_subset_insert[of "promises v" d "\<lparr>status = st, reactions = []\<rparr>"]
    by auto
  have eq: "settle d st v = v\<lparr>promises := (promises v)[d := \<lparr>status = st, reactions = []\<rparr>],
      jobs := jobs v @ map (\<lambda>r. ReactionJob r st) (reactions (promises v ! d))\<rparr>"
    using True by (simp add: settle_def)
  show ?thesis
    unfolding eq bounded_def
    using assms moved stored by (fastforce simp: bounded_def)
qed

lemma bounded_complete: "bounded v \<Longrightarrow> bounded (complete d (call_handler h x v))"
proof -
  assume b: "bounded v"
  obtain res v' where eq: "call_handler h x v = (res, v')"
    by (cases "call_handler h x v")
  then have "promises v' = promises v" "jobs v' = jobs v" "calls v' = calls v"
    using call_handler_frame[of h x v] by simp_all
  then have "bounded v'"
    using b by (simp add: bounded_def)
  then show ?thesis
    unfolding eq by (cases res) (simp_all add: bounded_settle)
qed

lemma bounded_run_job: "bounded v \<Longrightarrow> bounded (run_job j v)"
proof (cases j)
  case (ReactionJob r st)
  assume "bounded v"
  then show ?thesis
    unfolding ReactionJob
    by (cases st) (simp_all add: bounded_settle bounded_complete split: option.splits)
qed

lemma bounded_tick: "bounded v \<Longrightarrow> bounded (tick v)"
proof (cases "jobs v")
  case Nil
  assume "bounded v"
  then show ?thesis
    using Nil by (simp add: tick_def)
next
  case (Cons j js)
  assume "bounded v"
  then have "bounded (v\<lparr>jobs := js\<rparr>)"
    using Cons by (simp add: bounded_def)
  then show ?thesis
    using Cons by (simp add: tick_def bounded_run_job)
qed

lemma bounded_trigger:
  assumes "bounded v"
  shows "bounded (snd (trigger addr h c v))"
proof -
  let ?n = "length (promises v)"
  have old: "\<forall>pr \<in> set (promises v). \<forall>r \<in> set (reactions pr). derived r < ?n + 3"
    and js: "\<forall>j \<in> set (jobs v). job_target j < ?n + 3"
    and cs: "\<forall>c \<in> set (calls v). returned c < ?n + 3"
    using assms unfolding bounded_def by (simp_all add: trans_less_add1)
  have new: "\<forall>pr \<in> set (chain ?n h Pending Pending Pending). \<forall>r \<in> set (reactions pr).
      derived r < ?n + 3"
    by (simp add: chain_def)
  show ?thesis
    unfolding bounded_def using old new js cs
    by (simp add: trigger_def length_chain ball_Un)
qed

lemma bounded_call_contract:
  assumes "bounded v"
  shows "bounded (snd (call_contract addr c v))"
proof -
  let ?n = "length (promises v)"
  have old: "\<forall>pr \<in> set (promises v). \<forall>r \<in> set (reactions pr). derived r < Suc ?n"
    and js: "\<forall>j \<in> set (jobs v). job_target j < Suc ?n"
    and cs: "\<forall>c \<in> set (calls v). returned c < Suc ?n"
    using assms unfolding bounded_def by (simp_all add: less_Suc_eq)
  show ?thesis
    unfolding bounded_def using old js cs
    by (simp add: call_contract_def new_promise_def ball_Un)
qed

lemma bounded_apply_event: "bounded v \<Longrightarrow> bounded (apply_event params ev v)"
  by (cases ev)
    (simp_all add: useApprove_fn useTransfer_fn useTransferFrom_fn bounded_trigger
      bounded_settle erc20_call_useERC20 bounded_call_contract bounded_tick)

lemma bounded_run: "bounded v \<Longrightarrow> bounded (run params evs v)"
  by (induction evs arbitrary: v) (simp_all add: bounded_apply_event)

lemma bounded_init: "bounded init_world"
  by (simp add: bounded_def init_world_def)

text \<open>
  Jobs that do not target a sealed set leave it alone, and so do the jobs they queue. A
  job queued behind such jobs therefore finds the set as it was.
\<close>

lemma kept_refl: "kept Q v v"
  by (simp add: kept_def)

lemma kept_trans: "kept Q v v' \<Longrightarrow> kept Q v' v'' \<Longrightarrow> kept Q v v''"
  by (simp add: kept_def)

lemma settle_sealed:
  assumes "sealed Q v" and "d \<notin> Q"
  shows "sealed Q (settle d st v) \<and> kept Q v (settle d st v) \<and>
     (\<exists>extra. jobs (settle d st v) = jobs v @ extra \<and> clear Q extra)"
proof (cases "d < length (promises v) \<and> status (promises v ! d) = Pending \<and> st \<noteq> Pending")
  case False
  then have "settle d st v = v" by (auto simp: settle_def)
  then show ?thesis using assms by (simp add: kept_refl clear_def)
next
  case True
  have free: "clear Q (map (\<lambda>r. ReactionJob r st) (reactions (promises v ! d)))"
    using assms True by (auto simp: sealed_def clear_def)
  have "sealed Q (settle d st v)"
    using assms True by (auto simp: sealed_def settle_def nth_list_update)
  moreover have "kept Q v (settle d st v)"
    using assms True by (auto simp: kept_def settle_def nth_list_update)
  moreover have "jobs (settle d st v) =
      jobs v @ map (\<lambda>r. ReactionJob r st) (reactions (promises v ! d))"
    using True by (simp add: settle_def)
  ultimately show ?thesis using free by blast
qed

lemma quiet_settle:
  "sealed Q v \<Longrightarrow> d \<notin> Q \<Longrightarrow> quiet_step Q (jobs v) v (settle d st v)"
  unfolding quiet_step_def by (rule settle_sealed)

lemma quiet_step_frame:
  assumes "quiet_step Q (jobs v') v' u"
    and "promises v' = promises v" and "jobs v' = jobs v" and "calls v' = calls v"
  shows "quiet_step Q (jobs v) v u"
  using assms by (simp add: quiet_step_def kept_def)

lemma quiet_complete:
  assumes "sealed Q v" and "d \<notin> Q"
  shows "quiet_step Q (jobs v) v (complete d (call_handler h x v))"
proof -
  obtain res v' where eq: "call_handler h x v = (res, v')"
    by (cases "call_handler h x v")
  then have frame: "promises v' = promises v" "jobs v' = jobs v" "calls v' = calls v"
    using call_handler_frame[of h x v] by simp_all
  then have "sealed Q v'"
    using assms(1) by (simp add: sealed_def)
  then have "quiet_step Q (jobs v') v' (settle d st v')" for st
    using assms(2) by (rule quiet_settle)
  then have "quiet_step Q (jobs v) v (settle d st v')" for st
    using frame by (rule quiet_step_frame)
  then show ?thesis
    unfolding eq by (cases res) simp_all
qed

lemma quiet_run_job:
  assumes "sealed Q v" and "job_target j \<notin> Q"
  shows "quiet_step Q (jobs v) v (run_job j v)"
proof (cases j)
  case (ReactionJob r st)
  then have d: "derived r \<notin> Q"
    using assms(2) by simp
  show ?thesis
  proof (cases st)
    case Pending
    then show ?thesis
      using ReactionJob assms(1) by (simp add: quiet_step_def kept_refl clear_def)
  next
    case (Fulfilled x)
    show ?thesis
    proof (cases "onFulfilled r")
      case None
      then show ?thesis
        unfolding ReactionJob Fulfilled using quiet_settle[OF assms(1) d] by simp
    next
      case (Some h)
      then show ?thesis
        unfolding ReactionJob Fulfilled using quiet_complete[OF assms(1) d] by simp
    qed
  next
    case (Rejected x)
    show ?thesis
    proof (cases "onRejected r")
      case None
      then show ?thesis
        unfolding ReactionJob Rejected using quiet_settle[OF assms(1) d] by simp
    next
      case (Some h)
      then show ?thesis
        unfolding ReactionJob Rejected using quiet_complete[OF assms(1) d] by simp
    qed
  qed
qed

lemma quiet_tick:
  assumes "sealed Q v" and "jobs v = j # js" and "job_target j \<notin> Q"
  shows "quiet_step Q js v (tick v)"
proof -
  have "sealed Q (v\<lparr>jobs := js\<rparr>)"
    using assms(1) by (simp add: sealed_def)
  then have "quiet_step Q (jobs (v\<lparr>jobs := js\<rparr>)) (v\<lparr>jobs := js\<rparr>) (run_job j (v\<lparr>jobs := js\<rparr>))"
    using assms(3) by (rule quiet_run_job)
  then show ?thesis
    using assms(2) by (simp add: tick_def quiet_step_def kept_def)
qed

lemma prefix_run:
  assumes "sealed Q v" and "jobs v = js @ J # js'" and "clear Q js" and "clear Q js'"
  shows "\<exists>js''. jobs ((tick ^^ length js) v) = J # js'' \<and> clear Q js'' \<and>
     sealed Q ((tick ^^ length js) v) \<and> kept Q v ((tick ^^ length js) v)"
  using assms
proof (induction js arbitrary: v js')
  case Nil
  then show ?case
    by (auto simp: kept_refl)
next
  case (Cons a js)
  have a: "job_target a \<notin> Q" and rest: "clear Q js"
    using Cons.prems(3) by (simp_all add: clear_def)
  have "jobs v = a # (js @ J # js')"
    using Cons.prems(2) by simp
  from quiet_tick[OF Cons.prems(1) this a]
  obtain extra where s: "sealed Q (tick v)" and k: "kept Q v (tick v)"
    and j: "jobs (tick v) = js @ J # (js' @ extra)" and e: "clear Q extra"
    unfolding quiet_step_def by auto
  have "clear Q (js' @ extra)"
    using Cons.prems(4) e by (auto simp: clear_def)
  from Cons.IH[OF s j rest this]
  obtain js'' where "jobs ((tick ^^ length js) (tick v)) = J # js''" "clear Q js''"
    "sealed Q ((tick ^^ length js) (tick v))" "kept Q (tick v) ((tick ^^ length js) (tick v))"
    by auto
  then show ?case
    using k kept_trans[of Q v "tick v"] by (auto simp: funpow_swap1)
qed

text \<open>
  The chain a trigger creates in a bounded world is isolated, and stays so, unchanged, for
  as long as the contract call's promise is pending.
\<close>

lemma quiet_isolated:
  assumes "isolated n v" and "quiet_step {n, n + 1, n + 2} js v v'" and "clear {n, n + 1, n + 2} js"
  shows "isolated n v' \<and> same3 n v v'"
proof -
  obtain extra where s: "sealed {n, n + 1, n + 2} v'" and k: "kept {n, n + 1, n + 2} v v'"
    and j: "jobs v' = js @ extra" and e: "clear {n, n + 1, n + 2} extra"
    using assms(2) unfolding quiet_step_def by auto
  have "clear {n, n + 1, n + 2} (jobs v')"
    using assms(3) e unfolding j clear_def by auto
  moreover have "calls v' = calls v"
    using k by (simp add: kept_def)
  ultimately have "isolated n v'"
    using s assms(1) by (simp add: isolated_def)
  moreover have "same3 n v v'"
    using k by (simp add: kept_def same3_def)
  ultimately show ?thesis ..
qed

lemma isolated_settle:
  assumes "isolated n v" and "d \<notin> {n, n + 1, n + 2}"
  shows "isolated n (settle d st v) \<and> same3 n v (settle d st v)"
proof -
  have "sealed {n, n + 1, n + 2} v" and c: "clear {n, n + 1, n + 2} (jobs v)"
    using assms(1) by (simp_all add: isolated_def)
  then have "quiet_step {n, n + 1, n + 2} (jobs v) v (settle d st v)"
    using assms(2) by (intro quiet_settle)
  then show ?thesis
    using assms(1) c by (intro quiet_isolated)
qed

lemma isolated_tick:
  assumes "isolated n v"
  shows "isolated n (tick v) \<and> same3 n v (tick v)"
proof (cases "jobs v")
  case Nil
  then show ?thesis
    using assms by (simp add: tick_def same3_def)
next
  case (Cons j js)
  have s: "sealed {n, n + 1, n + 2} v" and c: "clear {n, n + 1, n + 2} (jobs v)"
    using assms by (simp_all add: isolated_def)
  have "job_target j \<notin> {n, n + 1, n + 2}" and cjs: "clear {n, n + 1, n + 2} js"
    using c Cons by (simp_all add: clear_def)
  then have "quiet_step {n, n + 1, n + 2} js v (tick v)"
    using s Cons by (intro quiet_tick)
  then show ?thesis
    using assms cjs by (intro quiet_isolated)
qed

lemma isolated_append:
  assumes iso: "isolated n v"
    and ps: "promises v' = promises v @ new"
    and fresh: "\<forall>pr \<in> set new. \<forall>r \<in> set (reactions pr). length (promises v) < derived r"
    and js: "jobs v' = jobs v"
    and cs: "calls v' = calls v @ [c]" "returned c = length (promises v)"
  shows "isolated n v' \<and> same3 n v v'"
proof -
  let ?Q = "{n, n + 1, n + 2}"
  have s: "sealed ?Q v" and cl: "clear ?Q (jobs v)"
    and rc: "\<forall>c \<in> set (calls v). returned c \<noteq> n + 1 \<and> returned c \<noteq> n + 2"
    using iso by (simp_all add: isolated_def)
  have low: "n + 2 < length (promises v)"
    using s by (simp add: sealed_def)
  have "derived r \<in> ?Q \<longrightarrow> i \<in> ?Q"
    if "i < length (promises v')" and "r \<in> set (reactions (promises v' ! i))" for i r
  proof (cases "i < length (promises v)")
    case True
    then have "promises v' ! i = promises v ! i"
      by (simp add: ps nth_append)
    then show ?thesis
      using s True that(2) by (simp add: sealed_def)
  next
    case False
    then have "promises v' ! i = new ! (i - length (promises v))"
      and "i - length (promises v) < length new"
      using that(1) by (simp_all add: ps nth_append)
    then have "promises v' ! i \<in> set new"
      by simp
    then have "length (promises v) < derived r"
      using fresh that(2) by blast
    then show ?thesis
      using low by auto
  qed
  then have "sealed ?Q v'"
    using low by (simp add: sealed_def ps)
  moreover have "clear ?Q (jobs v')"
    using cl by (simp add: js)
  moreover have "\<forall>c \<in> set (calls v'). returned c \<noteq> n + 1 \<and> returned c \<noteq> n + 2"
    using rc low by (auto simp: cs)
  moreover have "same3 n v v'"
    using low by (simp add: same3_def ps nth_append)
  ultimately show ?thesis
    by (simp add: isolated_def)
qed

lemma isolated_trigger:
  assumes "isolated n v"
  shows "isolated n (snd (trigger addr h c v)) \<and> same3 n v (snd (trigger addr h c v))"
proof (rule isolated_append[OF assms])
  show "promises (snd (trigger addr h c v)) =
      promises v @ chain (length (promises v)) h Pending Pending Pending"
    by (simp add: trigger_def)
  show "\<forall>pr \<in> set (chain (length (promises v)) h Pending Pending Pending).
      \<forall>r \<in> set (reactions pr). length (promises v) < derived r"
    by (simp add: chain_def)
  show "jobs (snd (trigger addr h c v)) = jobs v"
    by (simp add: trigger_def)
  show "calls (snd (trigger addr h c v)) =
      calls v @ [\<lparr>target = addr, invoked = c, returned = length (promises v)\<rparr>]"
    by (simp add: trigger_def)
  show "returned \<lparr>target = addr, invoked = c, returned = length (promises v)\<rparr> =
      length (promises v)"
    by simp
qed

lemma isolated_call_contract:
  assumes "isolated n v"
  shows "isolated n (snd (call_contract addr c v)) \<and> same3 n v (snd (call_contract addr c v))"
proof (rule isolated_append[OF assms])
  show "promises (snd (call_contract addr c v)) =
      promises v @ [\<lparr>status = Pending, reactions = []\<rparr>]"
    by (simp add: call_contract_def new_promise_def)
  show "\<forall>pr \<in> set [\<lparr>status = Pending, reactions = []\<rparr>].
      \<forall>r \<in> set (reactions pr). length (promises v) < derived r"
    by simp
  show "jobs (snd (call_contract addr c v)) = jobs v"
    by (simp add: call_contract_def new_promise_def)
  show "calls (snd (call_contract addr c v)) =
      calls v @ [\<lparr>target = addr, invoked = c, returned = length (promises v)\<rparr>]"
    by (simp add: call_contract_def new_promise_def)
  show "returned \<lparr>target = addr, invoked = c, returned = length (promises v)\<rparr> =
      length (promises v)"
    by simp
qed

lemma isolated_apply_event:
  assumes iso: "isolated n v"
    and pending: "status (promises (apply_event params ev v) ! n) = Pending"
  shows "isolated n (apply_event params ev v) \<and> same3 n v (apply_event params ev v)"
proof (cases ev)
  case (InvokeApprove spender amount)
  then show ?thesis
    using isolated_trigger[OF iso] by (simp add: useApprove_fn)
next
  case (InvokeTransfer recipient amount)
  then show ?thesis
    using isolated_trigger[OF iso] by (simp add: useTransfer_fn)
next
  case (InvokeTransferFrom sender recipient amount)
  then show ?thesis
    using isolated_trigger[OF iso] by (simp add: useTransferFrom_fn)
next
  case (Direct c)
  then show ?thesis
    using isolated_call_contract[OF iso] by (simp add: erc20_call_useERC20)
next
  case (Settle q st)
  show ?thesis
  proof (cases "q \<in> returned ` set (calls v)")
    case False
    then show ?thesis
      using Settle iso by (simp add: same3_def)
  next
    case True
    then have q: "q \<noteq> n + 1" "q \<noteq> n + 2"
      using iso by (auto simp: isolated_def)
    show ?thesis
    proof (cases "q = n")
      case same: True
      have "settle n st v = v"
        using pending Settle True same by (intro settle_noop) simp
      then show ?thesis
        using Settle True same iso by (simp add: same3_def)
    next
      case False
      then have "q \<notin> {n, n + 1, n + 2}"
        using q by simp
      from isolated_settle[OF iso this, of st] show ?thesis
        using Settle True by simp
    qed
  qed
next
  case Tick
  then show ?thesis
    using isolated_tick[OF iso] by simp
qed

lemma same3_trans: "same3 n v v' \<Longrightarrow> same3 n v' v'' \<Longrightarrow> same3 n v v''"
  by (simp add: same3_def)

lemma isolated_run:
  assumes "isolated n v"
    and "status (promises (run params evs v) ! n) = Pending"
  shows "isolated n (run params evs v) \<and> same3 n v (run params evs v)"
  using assms
proof (induction evs arbitrary: v)
  case Nil
  then show ?case
    by (simp add: same3_def)
next
  case (Cons ev evs)
  let ?v = "apply_event params ev v"
  have "n < length (promises v)"
    using Cons.prems(1) by (simp add: isolated_def sealed_def)
  then have "waits n (reactions (promises v ! n)) v"
    by (simp add: waits_def)
  then have "waits n (reactions (promises v ! n)) ?v"
    by (rule waits_apply_event)
  then have "n < length (promises ?v)"
    by (simp add: waits_def)
  then have "status (promises ?v ! n) = Pending"
    using Cons.prems(2) by (intro still_pending[of n ?v params evs]) simp_all
  from isolated_apply_event[OF Cons.prems(1) this]
  have iso: "isolated n ?v" and same: "same3 n v ?v"
    by simp_all
  from Cons.IH[OF iso] Cons.prems(2)
  have "isolated n (run params evs ?v)" "same3 n ?v (run params evs ?v)"
    by simp_all
  then show ?case
    using same same3_trans[of n v ?v] by simp
qed

lemma isolated_start:
  assumes "bounded w"
  shows "isolated (length (promises w)) (snd (trigger addr h c w))"
proof -
  let ?n = "length (promises w)"
  let ?Q = "{?n, ?n + 1, ?n + 2}"
  let ?w1 = "snd (trigger addr h c w)"
  have ps: "promises ?w1 = promises w @ chain ?n h Pending Pending Pending"
    and js: "jobs ?w1 = jobs w"
    and cs: "calls ?w1 = calls w @ [\<lparr>target = addr, invoked = c, returned = ?n\<rparr>]"
    by (simp_all add: trigger_def)
  have "derived r \<in> ?Q \<longrightarrow> i \<in> ?Q"
    if "i < length (promises ?w1)" and "r \<in> set (reactions (promises ?w1 ! i))" for i r
  proof (cases "i < ?n")
    case True
    then have "promises ?w1 ! i = promises w ! i" and "promises w ! i \<in> set (promises w)"
      by (simp_all add: ps nth_append)
    then have "derived r < ?n"
      using assms that(2) unfolding bounded_def by auto
    then show ?thesis
      by simp
  next
    case False
    then show ?thesis
      using that(1) by (auto simp: ps length_chain)
  qed
  then have "sealed ?Q ?w1"
    by (simp add: sealed_def ps length_chain)
  moreover have "clear ?Q (jobs ?w1)"
    using assms unfolding bounded_def clear_def js by fastforce
  moreover have "\<forall>c \<in> set (calls ?w1). returned c \<noteq> ?n + 1 \<and> returned c \<noteq> ?n + 2"
    using assms unfolding bounded_def cs by fastforce
  ultimately show ?thesis
    by (simp add: isolated_def)
qed

lemma sealed_after_settle:
  assumes "isolated n v"
  shows "sealed {n + 1, n + 2}
     (v\<lparr>promises := (promises v)[n := \<lparr>status = st, reactions = []\<rparr>], jobs := js\<rparr>)"
proof -
  have s: "sealed {n, n + 1, n + 2} v"
    using assms by (simp add: isolated_def)
  have "derived r \<in> {n + 1, n + 2} \<longrightarrow> i \<in> {n + 1, n + 2}"
    if "i < length (promises v)"
      and "r \<in> set (reactions ((promises v)[n := \<lparr>status = st, reactions = []\<rparr>] ! i))" for i r
  proof (cases "i = n")
    case True
    then show ?thesis
      using that by simp
  next
    case False
    then have "r \<in> set (reactions (promises v ! i))"
      using that(2) by simp
    then have "derived r \<in> {n, n + 1, n + 2} \<longrightarrow> i \<in> {n, n + 1, n + 2}"
      using s that(1) unfolding sealed_def by blast
    then show ?thesis
      using False by auto
  qed
  then show ?thesis
    using s by (simp add: sealed_def)
qed

text \<open>
  The two jobs of a rejection: the reaction of \<open>.then\<close> passes the rejection on to
  the promise of \<open>.then\<close>, whose reaction is then queued; the reaction of \<open>.catch\<close>
  runs \<open>setErr\<close> and fulfils the promise of \<open>.catch\<close>.
\<close>

lemma then_stage:
  assumes s: "sealed {n + 1, n + 2} u"
    and j: "jobs u = js @ ReactionJob r (Rejected R) # js'"
    and r: "onRejected r = None" "derived r = n + 1"
    and c: "clear {n + 1, n + 2} js" "clear {n + 1, n + 2} js'"
    and p1: "promises u ! (n + 1) = \<lparr>status = Pending, reactions = [r2]\<rparr>"
  shows "\<exists>js''. sealed {n + 1, n + 2} ((tick ^^ Suc (length js)) u) \<and>
     jobs ((tick ^^ Suc (length js)) u) = js'' @ ReactionJob r2 (Rejected R) # [] \<and>
     clear {n + 1, n + 2} js'' \<and>
     promises ((tick ^^ Suc (length js)) u) ! (n + 2) = promises u ! (n + 2)"
proof -
  let ?Q = "{n + 1, n + 2}"
  let ?u1 = "(tick ^^ length js) u"
  from prefix_run[OF s j c]
  obtain js'' where j1: "jobs ?u1 = ReactionJob r (Rejected R) # js''"
    and c1: "clear ?Q js''" and s1: "sealed ?Q ?u1" and k1: "kept ?Q u ?u1"
    by auto
  have len: "n + 2 < length (promises ?u1)"
    using s1 by (simp add: sealed_def)
  have p1': "promises ?u1 ! (n + 1) = \<lparr>status = Pending, reactions = [r2]\<rparr>"
    and p2': "promises ?u1 ! (n + 2) = promises u ! (n + 2)"
    using k1 p1 by (simp_all add: kept_def)
  have t: "tick ?u1 = ?u1\<lparr>promises := (promises ?u1)[n + 1 := \<lparr>status = Rejected R, reactions = []\<rparr>],
      jobs := js'' @ [ReactionJob r2 (Rejected R)]\<rparr>"
    using j1 r p1' len by (simp add: tick_def settle_def)
  have "sealed ?Q (tick ?u1)"
    unfolding t using s1 by (auto simp: sealed_def nth_list_update)
  moreover have "promises (tick ?u1) ! (n + 2) = promises u ! (n + 2)"
    unfolding t using p2' by simp
  moreover have "jobs (tick ?u1) = js'' @ ReactionJob r2 (Rejected R) # []"
    unfolding t by simp
  ultimately show ?thesis
    using c1 by auto
qed

lemma catch_stage:
  assumes s: "sealed {n + 1, n + 2} u"
    and j: "jobs u = js @ ReactionJob r (Rejected R) # js'"
    and r: "onRejected r = Some (SetErr h)" "derived r = n + 2"
    and c: "clear {n + 1, n + 2} js" "clear {n + 1, n + 2} js'"
    and p2: "promises u ! (n + 2) = \<lparr>status = Pending, reactions = []\<rparr>"
    and ok: "instanceof_Error R \<or> convertible R"
  shows "\<exists>e a. asError R (next_obj ((tick ^^ length js) u)) = (Inr e, a) \<and>
     txn ((tick ^^ Suc (length js)) u) h = Some \<lparr>transaction = None, error = Some e\<rparr> \<and>
     status (promises ((tick ^^ Suc (length js)) u) ! (n + 2)) = Fulfilled JUndefined"
proof -
  let ?Q = "{n + 1, n + 2}"
  let ?u1 = "(tick ^^ length js) u"
  from prefix_run[OF s j c]
  obtain js'' where j1: "jobs ?u1 = ReactionJob r (Rejected R) # js''"
    and s1: "sealed ?Q ?u1" and k1: "kept ?Q u ?u1"
    by auto
  have len: "n + 2 < length (promises ?u1)"
    using s1 by (simp add: sealed_def)
  have p2': "promises ?u1 ! (n + 2) = \<lparr>status = Pending, reactions = []\<rparr>"
    using k1 p2 by (simp add: kept_def)
  obtain e a where e: "asError R (next_obj ?u1) = (Inr e, a)"
    using asError_ok[OF ok] by blast
  have "txn (tick ?u1) h = Some \<lparr>transaction = None, error = Some e\<rparr> \<and>
      status (promises (tick ?u1) ! (n + 2)) = Fulfilled JUndefined"
    using j1 r p2' len e by (simp add: tick_def settle_def setErr_def setTxn_def)
  then show ?thesis
    using e by auto
qed

section \<open>The write hooks\<close>

text \<open>
  C1. The trigger returned by \<open>useApprove\<close> is invoked with \<open>(spender, amount)\<close>,
  in any world; the call it issues is \<open>approve(spender, amount)\<close> of the contract.
  Anything may happen afterwards that leaves the call pending. If the call then resolves
  with the transaction \<open>T\<close>, the result paired with the trigger becomes exactly
  \<open>{transaction: T}\<close>, its error field not set, at the turn of the job queue that runs
  the call's reaction: the turn after those of the jobs waiting at the settlement. When
  the hook was idle (no job waiting at the invocation, nothing in between), this is the
  result once the queue has run.
\<close>

theorem useApprove_resolved:
  assumes "fst (useApprove params w0) spender amount w = (p, w1)"
    and "v = run params evs w1"
    and "status (promises v ! returned (last (calls w1))) = Pending"
  shows "invoked (last (calls w1)) = Approve spender amount \<and>
     snd (useApprove params ((tick ^^ Suc (length (jobs v)))
        (settle (returned (last (calls w1))) (Fulfilled T) v))) =
       Some \<lparr>transaction = Some T, error = None\<rparr> \<and>
     (jobs w = [] \<and> evs = [] \<longrightarrow>
      snd (useApprove params (drain (settle (returned (last (calls w1))) (Fulfilled T) v))) =
       Some \<lparr>transaction = Some T, error = None\<rparr>)"
proof -
  let ?n = "length (promises w)"
  let ?r = "\<lparr>onFulfilled = Some (SetResult UseApprove), onRejected = None, derived = ?n + 1\<rparr>"
  have w1: "w1 = snd (trigger (contractAddress params) UseApprove (Approve spender amount) w)"
    using assms(1) by (simp add: useApprove_fn)
  have shape: "promises w1 = promises w @ chain ?n UseApprove Pending Pending Pending @ []"
    and log: "last (calls w1) = \<lparr>target = contractAddress params,
        invoked = Approve spender amount, returned = ?n\<rparr>"
    and same: "jobs w1 = jobs w"
    by (simp_all add: w1 trigger_def)
  have "waits ?n [?r] w1"
    by (simp add: waits_def shape chain_def nth_append)
  then have "waits ?n [?r] v"
    unfolding assms(2) by (rule waits_run)
  then have "jobs (settle ?n (Fulfilled T) v) = jobs v @ ReactionJob ?r (Fulfilled T) # []"
    using assms(3) by (simp add: settle_def waits_def log)
  from job_reaches_head[OF this]
  obtain rest where "jobs ((tick ^^ length (jobs v)) (settle ?n (Fulfilled T) v)) =
      ReactionJob ?r (Fulfilled T) # rest"
    by auto
  then have "txn (tick ((tick ^^ length (jobs v)) (settle ?n (Fulfilled T) v))) UseApprove =
      Some \<lparr>transaction = Some T, error = None\<rparr>"
    by (rule setResult_job) simp
  then have turns: "txn ((tick ^^ Suc (length (jobs v))) (settle ?n (Fulfilled T) v)) UseApprove =
      Some \<lparr>transaction = Some T, error = None\<rparr>"
    by simp
  have final: "txn (drain (settle ?n (Fulfilled T) v)) UseApprove =
      Some \<lparr>transaction = Some T, error = None\<rparr>" if "jobs w = []" "evs = []"
    using drain_settle_fulfilled[of w1 "promises w" UseApprove "[]" T] that shape same assms(2) by simp
  show ?thesis
    using turns final by (simp add: log hook_result)
qed

theorem useApprove_resolved_witness:
  "snd (useApprove demo_params
     (drain (settle 0 (Fulfilled (JPlain 7 [(''hash'', JStr ''0xaa'')]))
        (snd (fst (useApprove demo_params init_world) ''0xSpender'' 1 init_world))))) =
     Some \<lparr>transaction = Some (JPlain 7 [(''hash'', JStr ''0xaa'')]), error = None\<rparr>"
proof -
  let ?w1 = "snd (fst (useApprove demo_params init_world) ''0xSpender'' 1 init_world)"
  have quiet: "jobs init_world = []"
    by (simp add: init_world_def)
  have call: "fst (useApprove demo_params init_world) ''0xSpender'' 1 init_world = (2, ?w1)"
    by (simp add: useApprove_fn trigger_def init_world_def)
  have later: "?w1 = run demo_params [] ?w1"
    by simp
  have log: "returned (last (calls ?w1)) = 0"
    by code_simp
  have pending: "status (promises ?w1 ! returned (last (calls ?w1))) = Pending"
    by code_simp
  show ?thesis
    using useApprove_resolved[OF call later pending, of "JPlain 7 [(''hash'', JStr ''0xaa'')]"]
      quiet
    by (simp add: log)
qed

text \<open>
  C2, as amended. The trigger returned by \<open>useTransfer\<close> is invoked with
  \<open>(to, amount)\<close>, in a world that a trace of the hook has reached; the call it issues
  is \<open>transfer(to, amount)\<close> of the contract. Anything may happen afterwards that
  leaves the call pending. If the call then rejects with a reason \<open>R\<close> on which
  \<open>asError\<close> returns (an \<open>Error\<close>, or a value that \<open>ToString\<close> converts), then
  at some turn of the job queue \<open>setErr\<close> runs: the result becomes exactly
  \<open>{error: e}\<close>, where \<open>e\<close> is what \<open>asError\<close> returns on \<open>R\<close> at that turn,
  its transaction field is not set, and the promise the trigger returned is fulfilled, so
  that no rejection reaches the caller. When the hook was idle (no job waiting at the
  invocation, nothing in between), this is the state once the queue has run.
\<close>

theorem useTransfer_rejected:
  assumes reach: "w = run params evs0 init_world"
    and call: "fst (useTransfer params w0) to amount w = (p, w1)"
    and later: "v = run params evs w1"
    and pending: "status (promises v ! returned (last (calls w1))) = Pending"
    and ok: "instanceof_Error R \<or> convertible R"
  shows "invoked (last (calls w1)) = Transfer to amount \<and>
     (\<exists>m e a.
        asError R (next_obj ((tick ^^ m) (settle (returned (last (calls w1))) (Rejected R) v))) =
          (Inr e, a) \<and>
        snd (useTransfer params
          ((tick ^^ Suc m) (settle (returned (last (calls w1))) (Rejected R) v))) =
          Some \<lparr>transaction = None, error = Some e\<rparr> \<and>
        status (promises
          ((tick ^^ Suc m) (settle (returned (last (calls w1))) (Rejected R) v)) ! p) =
          Fulfilled JUndefined) \<and>
     (jobs w = [] \<and> evs = [] \<longrightarrow>
       (\<forall>e a. asError R (next_obj w) = (Inr e, a) \<longrightarrow>
          snd (useTransfer params (drain (settle (returned (last (calls w1))) (Rejected R) v))) =
            Some \<lparr>transaction = None, error = Some e\<rparr> \<and>
          status (promises (drain (settle (returned (last (calls w1))) (Rejected R) v)) ! p) =
            Fulfilled JUndefined))"
proof -
  let ?n = "length (promises w)"
  let ?r1 = "\<lparr>onFulfilled = Some (SetResult UseTransfer), onRejected = None, derived = ?n + 1\<rparr>"
  let ?r2 = "\<lparr>onFulfilled = None, onRejected = Some (SetErr UseTransfer), derived = ?n + 2\<rparr>"
  let ?Q = "{?n + 1, ?n + 2}"
  have w1: "w1 = snd (trigger (contractAddress params) UseTransfer (Transfer to amount) w)"
    and p: "p = ?n + 2"
    using call by (simp_all add: useTransfer_fn trigger_def)
  have shape: "promises w1 = promises w @ chain ?n UseTransfer Pending Pending Pending @ []"
    and same: "jobs w1 = jobs w"
    and alloc: "next_obj w1 = next_obj w"
    and log: "last (calls w1) = \<lparr>target = contractAddress params,
        invoked = Transfer to amount, returned = ?n\<rparr>"
    by (simp_all add: w1 trigger_def)
  have "bounded w"
    unfolding reach by (intro bounded_run bounded_init)
  then have "isolated ?n w1"
    unfolding w1 by (rule isolated_start)
  then have iso: "isolated ?n v" and kept: "same3 ?n w1 v"
    using isolated_run[of ?n w1 params evs] pending by (simp_all add: later log)
  have len: "?n + 2 < length (promises v)"
    using iso by (simp add: isolated_def sealed_def)
  have p0: "promises v ! ?n = \<lparr>status = Pending, reactions = [?r1]\<rparr>"
    and p1: "promises v ! (?n + 1) = \<lparr>status = Pending, reactions = [?r2]\<rparr>"
    and p2: "promises v ! (?n + 2) = \<lparr>status = Pending, reactions = []\<rparr>"
    using kept by (simp_all add: same3_def shape chain_def nth_append)
  let ?u0 = "settle ?n (Rejected R) v"
  have u0: "?u0 = v\<lparr>promises := (promises v)[?n := \<lparr>status = Rejected R, reactions = []\<rparr>],
      jobs := jobs v @ [ReactionJob ?r1 (Rejected R)]\<rparr>"
    using len p0 by (simp add: settle_def)
  have s0: "sealed ?Q ?u0"
    unfolding u0 using iso by (rule sealed_after_settle)
  have j0: "jobs ?u0 = jobs v @ ReactionJob ?r1 (Rejected R) # []"
    by (simp add: u0)
  have c0: "clear ?Q (jobs v)"
    using iso by (simp add: isolated_def clear_def)
  have nil: "clear ?Q []"
    by (simp add: clear_def)
  have q1: "promises ?u0 ! (?n + 1) = \<lparr>status = Pending, reactions = [?r2]\<rparr>"
    and q2: "promises ?u0 ! (?n + 2) = \<lparr>status = Pending, reactions = []\<rparr>"
    using p1 p2 by (simp_all add: u0)
  let ?k = "Suc (length (jobs v))"
  from then_stage[OF s0 j0 _ _ c0 nil q1]
  obtain js where s2: "sealed ?Q ((tick ^^ ?k) ?u0)"
    and j2: "jobs ((tick ^^ ?k) ?u0) = js @ ReactionJob ?r2 (Rejected R) # []"
    and c2: "clear ?Q js"
    and r2: "promises ((tick ^^ ?k) ?u0) ! (?n + 2) = \<lparr>status = Pending, reactions = []\<rparr>"
    using q2 by auto
  from catch_stage[OF s2 j2 _ _ c2 nil r2 ok]
  obtain e a where "asError R (next_obj ((tick ^^ length js) ((tick ^^ ?k) ?u0))) = (Inr e, a)"
    and "txn ((tick ^^ Suc (length js)) ((tick ^^ ?k) ?u0)) UseTransfer =
      Some \<lparr>transaction = None, error = Some e\<rparr>"
    and "status (promises ((tick ^^ Suc (length js)) ((tick ^^ ?k) ?u0)) ! (?n + 2)) =
      Fulfilled JUndefined"
    by auto
  then have "asError R (next_obj ((tick ^^ (length js + ?k)) ?u0)) = (Inr e, a) \<and>
      txn ((tick ^^ Suc (length js + ?k)) ?u0) UseTransfer = Some \<lparr>transaction = None, error = Some e\<rparr> \<and>
      status (promises ((tick ^^ Suc (length js + ?k)) ?u0) ! (?n + 2)) = Fulfilled JUndefined"
    by (simp only: funpow_add o_apply add_Suc [symmetric])
  then have turns: "\<exists>m e a. asError R (next_obj ((tick ^^ m) ?u0)) = (Inr e, a) \<and>
      txn ((tick ^^ Suc m) ?u0) UseTransfer = Some \<lparr>transaction = None, error = Some e\<rparr> \<and>
      status (promises ((tick ^^ Suc m) ?u0) ! (?n + 2)) = Fulfilled JUndefined"
    by blast
  have final: "txn (drain ?u0) UseTransfer = Some \<lparr>transaction = None, error = Some e\<rparr> \<and>
      status (promises (drain ?u0) ! (?n + 2)) = Fulfilled JUndefined"
    if "jobs w = []" "evs = []" "asError R (next_obj w) = (Inr e, a)" for e a
    using drain_settle_rejected[of w1 "promises w" UseTransfer "[]" R] that shape same alloc later
    by (simp add: chain_def nth_append)
  show ?thesis
    using turns final by (simp add: log hook_result p)
qed

theorem useTransfer_rejected_witness:
  "snd (useTransfer demo_params
     (drain (settle 0 (Rejected (JStr ''boom''))
        (snd (fst (useTransfer demo_params init_world) ''0xTo'' 5 init_world))))) =
     Some \<lparr>transaction = None, error = Some (JError 0 Error (Some ''boom''))\<rparr> \<and>
   status (promises (drain (settle 0 (Rejected (JStr ''boom''))
        (snd (fst (useTransfer demo_params init_world) ''0xTo'' 5 init_world)))) ! 2) =
     Fulfilled JUndefined"
proof -
  let ?w1 = "snd (fst (useTransfer demo_params init_world) ''0xTo'' 5 init_world)"
  have quiet: "jobs init_world = []"
    by (simp add: init_world_def)
  have reach: "init_world = run demo_params [] init_world"
    by simp
  have call: "fst (useTransfer demo_params init_world) ''0xTo'' 5 init_world = (2, ?w1)"
    by (simp add: useTransfer_fn trigger_def init_world_def)
  have later: "?w1 = run demo_params [] ?w1"
    by simp
  have log: "returned (last (calls ?w1)) = 0"
    by code_simp
  have pending: "status (promises ?w1 ! returned (last (calls ?w1))) = Pending"
    by code_simp
  have ok: "instanceof_Error (JStr ''boom'') \<or> convertible (JStr ''boom'')"
    by (simp add: convertible_def ToString_simps)
  have norm: "asError (JStr ''boom'') (next_obj init_world) =
      (Inr (JError 0 Error (Some ''boom'')), 1)"
    by (simp add: asError_def new_Error_def ToString_simps init_world_def)
  show ?thesis
    using useTransfer_rejected[OF reach call later pending ok] quiet norm
    by (simp add: log)
qed

text \<open>
  C2 as stated fails: when the transfer rejects with a symbol, \<open>asError\<close> throws inside
  \<open>setErr\<close>; the result stays \<open>undefined\<close>, and the promise returned by the trigger
  (promise 2) is rejected with the \<open>TypeError\<close>.
\<close>

theorem useTransfer_rejected_counterexample:
  "snd (useTransfer demo_params
      (drain (settle 0 (Rejected (JSymbol ''id''))
         (snd (fst (useTransfer demo_params init_world) ''0xTo'' 5 init_world))))) = None
   \<and> fst (fst (useTransfer demo_params init_world) ''0xTo'' 5 init_world) = 2
   \<and> status (promises (drain (settle 0 (Rejected (JSymbol ''id''))
         (snd (fst (useTransfer demo_params init_world) ''0xTo'' 5 init_world)))) ! 2) =
      Rejected (JError 1 TypeError (Some ''Cannot convert a Symbol value to a string''))"
  by code_simp

text \<open>
  C3 fails on the code. The triggers of the three hooks are invoked on a freshly mounted
  hook. Each returns promise 2, the promise of \<open>.catch(setErr)\<close>, not \<open>undefined\<close>.
  For \<open>useApprove\<close>: the call \<open>approve\<close> has been issued (its promise is promise 0),
  the returned promise is pending when the trigger returns, and it is fulfilled once the
  contract call has resolved and the queue has run: the caller holds a promise of the
  call's settlement.
\<close>

theorem triggers_return_promise:
  "fst (fst (useApprove demo_params init_world) ''0xSpender'' 1 init_world) = 2 \<and>
   fst (fst (useTransfer demo_params init_world) ''0xTo'' 1 init_world) = 2 \<and>
   fst (fst (useTransferFrom demo_params init_world) ''0xFrom'' ''0xTo'' 1 init_world) = 2 \<and>
   calls (snd (fst (useApprove demo_params init_world) ''0xSpender'' 1 init_world)) =
     [\<lparr>target = ''0xToken'', invoked = Approve ''0xSpender'' 1, returned = 0\<rparr>] \<and>
   status (promises
       (snd (fst (useApprove demo_params init_world) ''0xSpender'' 1 init_world)) ! 2)
     = Pending \<and>
   status (promises (drain (settle 0 (Fulfilled (JPlain 7 []))
       (snd (fst (useApprove demo_params init_world) ''0xSpender'' 1 init_world)))) ! 2)
     = Fulfilled JUndefined"
  by code_simp

section \<open>The result state\<close>

lemma txn_trigger: "txn (snd (trigger addr h c w)) = txn w"
  by (simp add: trigger_def)

lemma txn_call_contract: "txn (snd (call_contract addr c w)) = txn w"
  by (simp add: call_contract_def new_promise_def)

lemma at_most_one_call_handler:
  "at_most_one_field (txn w k) \<Longrightarrow> at_most_one_field (txn (snd (call_handler h v w)) k)"
  by (cases h) (auto simp: setResult_def setErr_def setTxn_def split: prod.splits sum.splits)

lemma txn_complete: "txn (complete d rw) = txn (snd rw)"
  by (cases rw; cases "fst rw") (auto simp: txn_settle)

lemma at_most_one_run_job:
  "at_most_one_field (txn w k) \<Longrightarrow> at_most_one_field (txn (run_job j w) k)"
proof (cases j)
  case (ReactionJob r st)
  assume "at_most_one_field (txn w k)"
  then show ?thesis
    using ReactionJob
    by (cases st)
      (auto simp: txn_settle txn_complete at_most_one_call_handler split: option.splits)
qed

lemma at_most_one_tick:
  "at_most_one_field (txn w k) \<Longrightarrow> at_most_one_field (txn (tick w) k)"
  using at_most_one_run_job[of "w\<lparr>jobs := tl (jobs w)\<rparr>" k "hd (jobs w)"]
  by (cases "jobs w") (auto simp: tick_def)

lemma at_most_one_apply_event:
  "at_most_one_field (txn w k) \<Longrightarrow> at_most_one_field (txn (apply_event params ev w) k)"
  by (cases ev)
    (simp_all add: useApprove_fn useTransfer_fn useTransferFrom_fn txn_trigger txn_settle
      erc20_call_useERC20 txn_call_contract at_most_one_tick)

lemma at_most_one_run:
  "at_most_one_field (txn w k) \<Longrightarrow> at_most_one_field (txn (run params evs w) k)"
  by (induction evs arbitrary: w) (simp_all add: at_most_one_apply_event)

text \<open>
  C7. After every trace of a mounted component, the result paired with the trigger of each
  write hook has at most one of its two fields, \<open>transaction\<close> and \<open>error\<close>,
  present: never both.
\<close>

theorem result_at_most_one_field:
  "at_most_one_field (snd (useApprove params (run params evs init_world))) \<and>
   at_most_one_field (snd (useTransfer params (run params evs init_world))) \<and>
   at_most_one_field (snd (useTransferFrom params (run params evs init_world)))"
  using at_most_one_run[of init_world UseApprove params evs]
    at_most_one_run[of init_world UseTransfer params evs]
    at_most_one_run[of init_world UseTransferFrom params evs]
  by (simp add: hook_result init_world_def)

theorem result_at_most_one_field_witness:
  "at_most_one_field (snd (useApprove demo_params (run demo_params
     [InvokeApprove ''0xSpender'' 1, Settle 0 (Fulfilled (JPlain 7 [])), Tick,
      InvokeApprove ''0xSpender'' 2, Settle 3 (Rejected (JStr ''boom'')), Tick, Tick, Tick]
     init_world))) \<and>
   snd (useApprove demo_params (run demo_params
     [InvokeApprove ''0xSpender'' 1, Settle 0 (Fulfilled (JPlain 7 [])), Tick,
      InvokeApprove ''0xSpender'' 2, Settle 3 (Rejected (JStr ''boom'')), Tick, Tick, Tick]
     init_world)) =
     Some \<lparr>transaction = None, error = Some (JError 0 Error (Some ''boom''))\<rparr>"
proof -
  have "snd (useApprove demo_params (run demo_params
     [InvokeApprove ''0xSpender'' 1, Settle 0 (Fulfilled (JPlain 7 [])), Tick,
      InvokeApprove ''0xSpender'' 2, Settle 3 (Rejected (JStr ''boom'')), Tick, Tick, Tick]
     init_world)) =
     Some \<lparr>transaction = None, error = Some (JError 0 Error (Some ''boom''))\<rparr>"
    by code_simp
  then show ?thesis
    using result_at_most_one_field[of demo_params
        "[InvokeApprove ''0xSpender'' 1, Settle 0 (Fulfilled (JPlain 7 [])), Tick,
      InvokeApprove ''0xSpender'' 2, Settle 3 (Rejected (JStr ''boom'')), Tick, Tick, Tick]"]
    by simp
qed

section \<open>Overlapping invocations\<close>









































section \<open>The object returned by useERC20\<close>

lemma direct_call_rejected:
  "(let (p, w1) = erc20_call (useERC20 params) c w;
        w2 = settle p (Rejected R) w1
    in last (calls w1) = \<lparr>target = contractAddress params, invoked = c, returned = p\<rparr> \<and>
       status (promises w2 ! p) = Rejected R \<and>
       jobs w2 = jobs w \<and> txn w2 = txn w \<and> next_obj w2 = next_obj w)"
  by (simp add: erc20_call_useERC20 call_contract_def new_promise_def settle_def nth_append)

text \<open>
  C9. The six read accessors of the object returned by \<open>useERC20\<close> are the bound
  contract's own query functions. So a call of a read accessor issues that query and
  hands its promise to the caller, and when the promise is rejected with \<open>R\<close> the
  caller's promise is rejected with \<open>R\<close> itself: no reaction job is queued for it, the
  result state is unchanged, and no object is created (\<open>asError\<close> has not run).
\<close>

theorem read_accessors_pass_through:
  "name (useERC20 params) = name (connect (ethereum params) (contractAddress params)) \<and>
   symbol (useERC20 params) = symbol (connect (ethereum params) (contractAddress params)) \<and>
   decimals (useERC20 params) = decimals (connect (ethereum params) (contractAddress params)) \<and>
   totalSupply (useERC20 params) =
     totalSupply (connect (ethereum params) (contractAddress params)) \<and>
   balanceOf (useERC20 params) = balanceOf (connect (ethereum params) (contractAddress params)) \<and>
   allowance (useERC20 params) = allowance (connect (ethereum params) (contractAddress params)) \<and>
   (is_read c \<longrightarrow>
     (let (p, w1) = erc20_call (useERC20 params) c w;
          w2 = settle p (Rejected R) w1
      in last (calls w1) = \<lparr>target = contractAddress params, invoked = c, returned = p\<rparr> \<and>
         status (promises w2 ! p) = Rejected R \<and>
         jobs w2 = jobs w \<and> txn w2 = txn w \<and> next_obj w2 = next_obj w))"
  using direct_call_rejected[of params c w R]
  by (simp add: useERC20_def Let_def)

theorem read_accessors_pass_through_witness:
  "status (promises (settle 0 (Rejected (JStr ''network down''))
      (snd (balanceOf (useERC20 demo_params) ''0xOwner'' init_world))) ! 0) =
     Rejected (JStr ''network down'') \<and>
   txn (settle 0 (Rejected (JStr ''network down''))
      (snd (balanceOf (useERC20 demo_params) ''0xOwner'' init_world))) = txn init_world \<and>
   jobs (settle 0 (Rejected (JStr ''network down''))
      (snd (balanceOf (useERC20 demo_params) ''0xOwner'' init_world))) = []"
  using read_accessors_pass_through[of demo_params "BalanceOf ''0xOwner''" init_world
      "JStr ''network down''"]
  by (simp add: erc20_call_useERC20 call_contract_def new_promise_def init_world_def
      useERC20_def connect_def ERC20Abi__factory_connect_def Let_def)

text \<open>
  C10. The functions \<open>approve\<close>, \<open>transfer\<close> and \<open>transferFrom\<close> of the object
  returned by \<open>useERC20\<close> are the bound contract's own methods. Called through this
  object, a write issues the contract call and hands its promise to the caller; when it
  is rejected with \<open>R\<close> the caller's promise is rejected with \<open>R\<close> itself, not
  normalised, no reaction job is queued and the result state is unchanged. Capture into
  the result state is what the three write hooks add.
\<close>

theorem write_methods_raw:
  "approve (useERC20 params) = approve (connect (ethereum params) (contractAddress params)) \<and>
   transfer (useERC20 params) = transfer (connect (ethereum params) (contractAddress params)) \<and>
   transferFrom (useERC20 params) =
     transferFrom (connect (ethereum params) (contractAddress params)) \<and>
   (\<not> is_read c \<longrightarrow>
     (let (p, w1) = erc20_call (useERC20 params) c w;
          w2 = settle p (Rejected R) w1
      in last (calls w1) = \<lparr>target = contractAddress params, invoked = c, returned = p\<rparr> \<and>
         status (promises w2 ! p) = Rejected R \<and>
         jobs w2 = jobs w \<and> txn w2 = txn w \<and> next_obj w2 = next_obj w))"
  using direct_call_rejected[of params c w R]
  by (simp add: useERC20_def Let_def)

theorem write_methods_raw_witness:
  "status (promises (settle 0 (Rejected (JStr ''reverted''))
      (snd (transfer (useERC20 demo_params) ''0xTo'' 5 init_world))) ! 0) =
     Rejected (JStr ''reverted'') \<and>
   txn (settle 0 (Rejected (JStr ''reverted''))
      (snd (transfer (useERC20 demo_params) ''0xTo'' 5 init_world))) = txn init_world \<and>
   jobs (settle 0 (Rejected (JStr ''reverted''))
      (snd (transfer (useERC20 demo_params) ''0xTo'' 5 init_world))) = []"
  using write_methods_raw[of demo_params "Transfer ''0xTo'' 5" init_world "JStr ''reverted''"]
  by (simp add: erc20_call_useERC20 call_contract_def new_promise_def init_world_def
      useERC20_def connect_def ERC20Abi__factory_connect_def Let_def)

end
